theory Spec2Isabelle
  imports Main
begin

section \<open>The JavaScript runtime functions used by bq-backup-and-restore\<close>

text \<open>
  The tool is TypeScript on Node. Its codec and retention code is written with
  \<^verbatim>\<open>Date\<close>, \<^verbatim>\<open>String\<close>, \<^verbatim>\<open>parseInt\<close> and the string methods
  \<^verbatim>\<open>split\<close>, \<^verbatim>\<open>join\<close>, \<^verbatim>\<open>startsWith\<close>, \<^verbatim>\<open>includes\<close>,
  \<^verbatim>\<open>substring\<close> and \<^verbatim>\<open>padStart\<close>. This section gives those built-ins
  as ECMA-262 defines them. A Number that holds an integer is an \<open>int\<close>;
  a Number that may be NaN is an \<open>int option\<close> with \<open>None\<close> for NaN.
  Strings are \<open>char list\<close>; one \<open>char\<close> stands for one code unit.
\<close>

subsection \<open>Strings\<close>

definition digitChar :: "nat \<Rightarrow> char" where
  "digitChar n = char_of (48 + n)"

text \<open>\<^verbatim>\<open>String(n)\<close> for an integer \<open>n\<close> (the decimal digits, a minus sign when negative).\<close>

fun natString :: "nat \<Rightarrow> string" where
  "natString n = (if n < 10 then [digitChar n] else natString (n div 10) @ [digitChar (n mod 10)])"

declare natString.simps [simp del]

definition numberToString :: "int \<Rightarrow> string" where
  "numberToString i = (if i < 0 then CHR ''-'' # natString (nat (- i)) else natString (nat i))"

text \<open>\<^verbatim>\<open>s.padStart(n, c)\<close> with a one-character filler.\<close>

definition padStart :: "nat \<Rightarrow> char \<Rightarrow> string \<Rightarrow> string" where
  "padStart n c s = replicate (n - length s) c @ s"

text \<open>\<^verbatim>\<open>s.startsWith(p)\<close> and \<^verbatim>\<open>s.includes(p)\<close>.\<close>

definition startsWith :: "string \<Rightarrow> string \<Rightarrow> bool" where
  "startsWith s p = (take (length p) s = p)"

fun includesStr :: "string \<Rightarrow> string \<Rightarrow> bool" where
  "includesStr [] p = (p = [])"
| "includesStr (x # xs) p = (startsWith (x # xs) p \<or> includesStr xs p)"

text \<open>\<^verbatim>\<open>s.split(c)\<close> with a one-character separator: never the empty array.\<close>

fun split :: "char \<Rightarrow> string \<Rightarrow> string list" where
  "split c [] = [[]]"
| "split c (x # xs) =
     (if x = c then [] # split c xs
      else (case split c xs of [] \<Rightarrow> [[x]] | p # ps \<Rightarrow> (x # p) # ps))"

text \<open>\<^verbatim>\<open>parts.join(sep)\<close>.\<close>

fun join :: "string \<Rightarrow> string list \<Rightarrow> string" where
  "join sep [] = []"
| "join sep [p] = p"
| "join sep (p # q # ps) = p @ sep @ join sep (q # ps)"

text \<open>\<^verbatim>\<open>s.substring(i, j)\<close> for \<open>i \<le> j\<close>.\<close>

definition substring :: "nat \<Rightarrow> nat \<Rightarrow> string \<Rightarrow> string" where
  "substring i j s = take (j - i) (drop i s)"

text \<open>
  \<^verbatim>\<open>parseInt(s, 10)\<close>: leading white space is dropped, one sign is read, then the
  longest run of decimal digits; anything after it is ignored. No digit at all gives NaN.
\<close>

definition isWhiteSpace :: "char \<Rightarrow> bool" where
  "isWhiteSpace c = (of_char c \<in> {9, 10, 11, 12, 13, 32, 160 :: nat})"

definition isDigit :: "char \<Rightarrow> bool" where
  "isDigit c = (48 \<le> (of_char c :: nat) \<and> (of_char c :: nat) \<le> 57)"

definition digitVal :: "char \<Rightarrow> int" where
  "digitVal c = int (of_char c) - 48"

definition digitsVal :: "string \<Rightarrow> int" where
  "digitsVal ds = foldl (\<lambda>a c. 10 * a + digitVal c) 0 ds"

definition parseInt :: "string \<Rightarrow> int option" where
  "parseInt s =
     (let s1 = dropWhile isWhiteSpace s;
          sgn = (case s1 of c # r \<Rightarrow> (if c = CHR ''-'' then - 1 else 1) | [] \<Rightarrow> (1 :: int));
          s2 = (case s1 of c # r \<Rightarrow> (if c = CHR ''-'' \<or> c = CHR ''+'' then r else s1) | [] \<Rightarrow> s1);
          ds = takeWhile isDigit s2
      in if ds = [] then None else Some (sgn * digitsVal ds))"

subsection \<open>Time values and the calendar (ECMA-262, Date objects)\<close>

text \<open>
  A time value is a number of milliseconds since 1970-01-01T00:00:00Z, or NaN.
  A \<^verbatim>\<open>Date\<close> object is its time value: \<open>Some t\<close>, or \<open>None\<close> for an
  invalid Date.
\<close>

type_synonym Date = "int option"

definition msPerDay :: int where "msPerDay = 86400000"
definition msPerHour :: int where "msPerHour = 3600000"
definition msPerMinute :: int where "msPerMinute = 60000"
definition msPerSecond :: int where "msPerSecond = 1000"

definition Day :: "int \<Rightarrow> int" where
  "Day t = t div msPerDay"

definition TimeWithinDay :: "int \<Rightarrow> int" where
  "TimeWithinDay t = t mod msPerDay"

definition DaysInYear :: "int \<Rightarrow> int" where
  "DaysInYear y =
     (if y mod 4 \<noteq> 0 then 365 else if y mod 100 \<noteq> 0 then 366
      else if y mod 400 \<noteq> 0 then 365 else 366)"

definition DayFromYear :: "int \<Rightarrow> int" where
  "DayFromYear y =
     365 * (y - 1970) + (y - 1969) div 4 - (y - 1901) div 100 + (y - 1601) div 400"

text \<open>
  The standard defines \<^verbatim>\<open>YearFromTime(t)\<close> as the largest year whose first day
  is not after \<open>t\<close>. It is computed here by counting up from an estimate that is
  never too large; the search ends because every year has at least 365 days.
\<close>

lemma div_succ:
  fixes a n :: int
  assumes "0 < n"
  shows "(a + 1) div n = a div n + (if (a + 1) mod n = 0 then 1 else 0)"
proof (cases "a mod n + 1 < n")
  case True
  have "a + 1 = n * (a div n) + (a mod n + 1)" by simp
  moreover have "0 \<le> a mod n + 1" using assms by (simp add: add_nonneg_nonneg)
  ultimately have "(a + 1) div n = a div n" "(a + 1) mod n = a mod n + 1"
    using True int_div_pos_eq [of "a + 1" n "a div n" "a mod n + 1"]
      int_mod_pos_eq [of "a + 1" n "a div n" "a mod n + 1"] by auto
  moreover have "0 \<le> a mod n" using assms by simp
  ultimately show ?thesis by simp
next
  case False
  have "a mod n < n" using assms by simp
  with False have e: "a mod n = n - 1" by simp
  have "a + 1 = n * (a div n) + a mod n + 1" by simp
  also have "\<dots> = n * (a div n + 1) + 0" unfolding e by (simp add: algebra_simps)
  finally have "(a + 1) div n = a div n + 1" "(a + 1) mod n = 0"
    using assms int_div_pos_eq [of "a + 1" n "a div n + 1" 0]
      int_mod_pos_eq [of "a + 1" n "a div n + 1" 0] by auto
  then show ?thesis by simp
qed

lemma DayFromYear_Suc: "DayFromYear (y + 1) = DayFromYear y + DaysInYear y"
proof -
  have s4: "(y - 1968) mod 4 = y mod 4"
    using mod_mult_self1 [of y "- 492" 4] by simp
  have s100: "(y - 1900) mod 100 = y mod 100"
    using mod_mult_self1 [of y "- 19" 100] by simp
  have s400: "(y - 1600) mod 400 = y mod 400"
    using mod_mult_self1 [of y "- 4" 400] by simp
  have m4: "y mod 100 = 0 \<Longrightarrow> y mod 4 = 0"
    using mod_mod_cancel [of 4 100 y] by simp
  have m100: "y mod 400 = 0 \<Longrightarrow> y mod 100 = 0"
    using mod_mod_cancel [of 100 400 y] by simp
  have a: "(y + 1 - 1969) div 4 = (y - 1969) div 4 + (if y mod 4 = 0 then 1 else 0)"
    using div_succ [of 4 "y - 1969"] s4 by (simp add: algebra_simps)
  have b: "(y + 1 - 1901) div 100 = (y - 1901) div 100 + (if y mod 100 = 0 then 1 else 0)"
    using div_succ [of 100 "y - 1901"] s100 by (simp add: algebra_simps)
  have c: "(y + 1 - 1601) div 400 = (y - 1601) div 400 + (if y mod 400 = 0 then 1 else 0)"
    using div_succ [of 400 "y - 1601"] s400 by (simp add: algebra_simps)
  show ?thesis
    unfolding DayFromYear_def DaysInYear_def a b c
    using m4 m100 by auto
qed

lemma DayFromYear_less: "DayFromYear y < DayFromYear (y + 1)"
  unfolding DayFromYear_Suc DaysInYear_def by simp

function yearSearch :: "int \<Rightarrow> int \<Rightarrow> int" where
  "yearSearch d y = (if DayFromYear (y + 1) \<le> d then yearSearch d (y + 1) else y)"
  by pat_completeness auto
termination
proof (relation "measure (\<lambda>(d, y). nat (d - DayFromYear y))")
  show "wf (measure (\<lambda>(d, y). nat (d - DayFromYear y)))" by simp
next
  fix d y assume "DayFromYear (y + 1) \<le> d"
  with DayFromYear_less [of y]
  show "((d, y + 1), (d, y)) \<in> measure (\<lambda>(d, y). nat (d - DayFromYear y))"
    by simp
qed

declare yearSearch.simps [simp del]

definition yearEstimate :: "int \<Rightarrow> int" where
  "yearEstimate d = 1970 + (if 0 \<le> d then d div 366 else d div 365)"

definition YearFromTime :: "int \<Rightarrow> int" where
  "YearFromTime t = yearSearch (Day t) (yearEstimate (Day t))"

definition InLeapYear :: "int \<Rightarrow> int" where
  "InLeapYear t = (if DaysInYear (YearFromTime t) = 366 then 1 else 0)"

definition DayWithinYear :: "int \<Rightarrow> int" where
  "DayWithinYear t = Day t - DayFromYear (YearFromTime t)"

text \<open>The day number within the year on which month \<open>m\<close> (0 to 11) begins.\<close>

definition monthStart :: "int \<Rightarrow> int \<Rightarrow> int" where
  "monthStart m leap =
     (if m = 0 then 0 else if m = 1 then 31 else if m = 2 then 59 + leap
      else if m = 3 then 90 + leap else if m = 4 then 120 + leap
      else if m = 5 then 151 + leap else if m = 6 then 181 + leap
      else if m = 7 then 212 + leap else if m = 8 then 243 + leap
      else if m = 9 then 273 + leap else if m = 10 then 304 + leap
      else 334 + leap)"

definition MonthFromTime :: "int \<Rightarrow> int" where
  "MonthFromTime t =
     (let d = DayWithinYear t; leap = InLeapYear t in
      if d < 31 then 0 else if d < 59 + leap then 1 else if d < 90 + leap then 2
      else if d < 120 + leap then 3 else if d < 151 + leap then 4
      else if d < 181 + leap then 5 else if d < 212 + leap then 6
      else if d < 243 + leap then 7 else if d < 273 + leap then 8
      else if d < 304 + leap then 9 else if d < 334 + leap then 10 else 11)"

definition DateFromTime :: "int \<Rightarrow> int" where
  "DateFromTime t = DayWithinYear t - monthStart (MonthFromTime t) (InLeapYear t) + 1"

definition HourFromTime :: "int \<Rightarrow> int" where
  "HourFromTime t = (t div msPerHour) mod 24"

definition MinFromTime :: "int \<Rightarrow> int" where
  "MinFromTime t = (t div msPerMinute) mod 60"

definition SecFromTime :: "int \<Rightarrow> int" where
  "SecFromTime t = (t div msPerSecond) mod 60"

definition msFromTime :: "int \<Rightarrow> int" where
  "msFromTime t = t mod msPerSecond"

definition MakeTime :: "int \<Rightarrow> int \<Rightarrow> int \<Rightarrow> int \<Rightarrow> int" where
  "MakeTime hour minute sec ms = hour * msPerHour + minute * msPerMinute + sec * msPerSecond + ms"

text \<open>
  \<^verbatim>\<open>MakeDay(year, month, date)\<close>: the day number of the first of the month
  (months outside 0 to 11 carry into the year), plus \<open>date - 1\<close>. Days outside
  the month are not rejected: they carry into the following or preceding months.
\<close>

definition MakeDay :: "int \<Rightarrow> int \<Rightarrow> int \<Rightarrow> int" where
  "MakeDay year month date =
     (let ym = year + month div 12; mn = month mod 12 in
      DayFromYear ym + monthStart mn (if DaysInYear ym = 366 then 1 else 0) + date - 1)"

definition MakeDate :: "int \<Rightarrow> int \<Rightarrow> int" where
  "MakeDate day time = day * msPerDay + time"

text \<open>\<^verbatim>\<open>TimeClip\<close>: a Date holds at most 8.64e15 milliseconds either side of the epoch.\<close>

definition TimeClip :: "int \<Rightarrow> Date" where
  "TimeClip t = (if \<bar>t\<bar> > 8640000000000000 then None else Some t)"

text \<open>
  \<^verbatim>\<open>Date.UTC(year, month, date, hours, minutes, seconds)\<close>. A NaN argument gives
  NaN; a year from 0 to 99 means 1900 + year.
\<close>

definition Date_UTC ::
  "int option \<Rightarrow> int option \<Rightarrow> int option \<Rightarrow> int option \<Rightarrow> int option \<Rightarrow> int option \<Rightarrow> Date"
where
  "Date_UTC year month date hours minutes seconds =
     (case (year, month, date, hours, minutes, seconds) of
        (Some y, Some m, Some dt, Some h, Some mi, Some s) \<Rightarrow>
          (let yr = (if 0 \<le> y \<and> y \<le> 99 then 1900 + y else y) in
           TimeClip (MakeDate (MakeDay yr m dt) (MakeTime h mi s 0)))
      | _ \<Rightarrow> None)"

text \<open>The getters and the setter of a valid Date with time value \<open>t\<close>.\<close>

definition getUTCFullYear :: "int \<Rightarrow> int" where "getUTCFullYear t = YearFromTime t"
definition getUTCMonth :: "int \<Rightarrow> int" where "getUTCMonth t = MonthFromTime t"
definition getUTCDate :: "int \<Rightarrow> int" where "getUTCDate t = DateFromTime t"
definition getUTCHours :: "int \<Rightarrow> int" where "getUTCHours t = HourFromTime t"
definition getUTCMinutes :: "int \<Rightarrow> int" where "getUTCMinutes t = MinFromTime t"
definition getUTCSeconds :: "int \<Rightarrow> int" where "getUTCSeconds t = SecFromTime t"

definition setUTCDate :: "int \<Rightarrow> int \<Rightarrow> Date" where
  "setUTCDate t dt =
     TimeClip (MakeDate (MakeDay (YearFromTime t) (MonthFromTime t) dt) (TimeWithinDay t))"

text \<open>
  \<^verbatim>\<open>toISOString()\<close> of a valid Date: \<^verbatim>\<open>YYYY-MM-DDTHH:mm:ss.sssZ\<close>, the year
  with a sign and six digits when it is not in 0 to 9999.
\<close>

definition isoYear :: "int \<Rightarrow> string" where
  "isoYear y =
     (if 0 \<le> y \<and> y \<le> 9999 then padStart 4 CHR ''0'' (natString (nat y))
      else (if y < 0 then CHR ''-'' else CHR ''+'') # padStart 6 CHR ''0'' (natString (nat \<bar>y\<bar>)))"

definition pad2 :: "int \<Rightarrow> string" where
  "pad2 n = padStart 2 CHR ''0'' (numberToString n)"

definition toISOString :: "int \<Rightarrow> string" where
  "toISOString t =
     isoYear (YearFromTime t) @ ''-'' @ pad2 (MonthFromTime t + 1) @ ''-'' @ pad2 (DateFromTime t)
     @ ''T'' @ pad2 (HourFromTime t) @ '':'' @ pad2 (MinFromTime t) @ '':'' @ pad2 (SecFromTime t)
     @ ''.'' @ padStart 3 CHR ''0'' (numberToString (msFromTime t)) @ ''Z''"

section \<open>utils.ts\<close>

definition BACKUP_DATASET_PREFIX :: string where
  "BACKUP_DATASET_PREFIX = ''zzz_backup_''"

definition formatBackupTimestamp :: "int \<Rightarrow> string" where
  "formatBackupTimestamp date =
     (let year = getUTCFullYear date;
          month = padStart 2 CHR ''0'' (numberToString (getUTCMonth date + 1));
          day = padStart 2 CHR ''0'' (numberToString (getUTCDate date));
          hours = padStart 2 CHR ''0'' (numberToString (getUTCHours date));
          minutes = padStart 2 CHR ''0'' (numberToString (getUTCMinutes date));
          seconds = padStart 2 CHR ''0'' (numberToString (getUTCSeconds date))
      in numberToString year @ month @ day @ ''_'' @ hours @ minutes @ seconds)"

definition generateBackupDatasetName :: "string \<Rightarrow> int \<Rightarrow> string" where
  "generateBackupDatasetName sourceDatasetId timestamp =
     BACKUP_DATASET_PREFIX @ formatBackupTimestamp timestamp @ ''_'' @ sourceDatasetId"

text \<open>
  \<^verbatim>\<open>validateTimeTravelTimestamp\<close> reads the clock (\<open>now\<close>); the logger calls are
  left out. A comparison with an invalid Date is false.
\<close>

definition validateTimeTravelTimestamp :: "int \<Rightarrow> int \<Rightarrow> bool" where
  "validateTimeTravelTimestamp timestamp now =
     (let sevenDaysAgo = TimeClip (now - 7 * 24 * 60 * 60 * 1000) in
      if (case sevenDaysAgo of Some s \<Rightarrow> timestamp < s | None \<Rightarrow> False) then False
      else if timestamp > now then False
      else True)"

text \<open>
  \<^verbatim>\<open>calculateExpirationTimestamp\<close>: \<open>None\<close> is \<^verbatim>\<open>undefined\<close>, for the
  argument and for the result.
\<close>

definition calculateExpirationTimestamp :: "int \<Rightarrow> int option \<Rightarrow> Date option" where
  "calculateExpirationTimestamp backupTimestamp expirationDays =
     (case expirationDays of
        None \<Rightarrow> None
      | Some n \<Rightarrow>
          if n = 0 then None
          else Some (setUTCDate backupTimestamp (getUTCDate backupTimestamp + n)))"

section \<open>list-backups.ts\<close>

record BackupInfo =
  backupDatasetId :: string
  sourceDatasetId :: string
  timestamp :: int

text \<open>
  The body of the loop of \<^verbatim>\<open>listBackups\<close>, for one dataset id: \<open>None\<close> where
  the loop goes on to the next dataset without recording anything (each
  \<^verbatim>\<open>continue\<close>), otherwise the entry that is pushed. Nothing in the body throws,
  so the two \<^verbatim>\<open>catch\<close> blocks are never entered.
\<close>

definition decodeBackupDataset :: "string \<Rightarrow> BackupInfo option" where
  "decodeBackupDataset datasetId =
     (if \<not> startsWith datasetId BACKUP_DATASET_PREFIX then None
      else
        let parts = split CHR ''_'' datasetId in
        if length parts < 5 then None
        else
          let timestampPart = parts ! 2 @ ''_'' @ parts ! 3;
              sourceId = join ''_'' (drop 4 parts)
          in case split CHR ''_'' timestampPart of
               datePart # timePart # rest \<Rightarrow>
                 if datePart = [] \<or> timePart = [] \<or> length datePart \<noteq> 8 \<or> length timePart \<noteq> 6
                 then None
                 else
                   let year = parseInt (substring 0 4 datePart);
                       month = map_option (\<lambda>m. m - 1) (parseInt (substring 4 6 datePart));
                       day = parseInt (substring 6 8 datePart);
                       hours = parseInt (substring 0 2 timePart);
                       minutes = parseInt (substring 2 4 timePart);
                       seconds = parseInt (substring 4 6 timePart)
                   in (case Date_UTC year month day hours minutes seconds of
                         None \<Rightarrow> None
                       | Some t \<Rightarrow>
                           Some \<lparr>backupDatasetId = datasetId, sourceDatasetId = sourceId,
                                 timestamp = t\<rparr>)
             | _ \<Rightarrow> None)"

text \<open>
  \<^verbatim>\<open>listBackups\<close> over the dataset ids that \<^verbatim>\<open>getDatasets\<close> returned; the
  final \<^verbatim>\<open>sort\<close> is stable and puts the newest first.
\<close>

definition listBackups :: "string list \<Rightarrow> BackupInfo list" where
  "listBackups allDatasets =
     sort_key (\<lambda>b. - timestamp b) (List.map_filter decodeBackupDataset allDatasets)"

section \<open>delete-backups.ts\<close>

record BackupGroup =
  timestamp :: int
  timestampStr :: string
  backups :: "BackupInfo list"

text \<open>
  \<^verbatim>\<open>groupBackupsByTimestamp\<close>. The \<^verbatim>\<open>Map\<close> is a list of keys with their groups in
  the order in which the keys were first set. One turn of the loop sets the key when it
  is new, then pushes the backup onto the group of the key.
\<close>

definition groupStep :: "(string \<times> BackupGroup) list \<Rightarrow> BackupInfo \<Rightarrow> (string \<times> BackupGroup) list" where
  "groupStep groups backup =
     (let timestampKey = toISOString (BackupInfo.timestamp backup);
          groups1 =
            (if map_of groups timestampKey = None
             then groups @ [(timestampKey,
                    \<lparr>timestamp = BackupInfo.timestamp backup,
                     timestampStr = toISOString (BackupInfo.timestamp backup),
                     backups = []\<rparr>)]
             else groups)
      in map (\<lambda>(k, g). if k = timestampKey then (k, g\<lparr>backups := backups g @ [backup]\<rparr>) else (k, g))
           groups1)"

definition groupBackupsByTimestamp :: "BackupInfo list \<Rightarrow> BackupGroup list" where
  "groupBackupsByTimestamp bs =
     sort_key (\<lambda>g. - BackupGroup.timestamp g) (map snd (foldl groupStep [] bs))"

section \<open>The warehouse as the tool reaches it\<close>

text \<open>
  The services talk to BigQuery through the client library. What the library would
  answer is the state \<open>World\<close>: the datasets of the project in listing order, each with
  the metadata the tool reads, and a log of the changes the tool has made, oldest first.
  A call to the library may also throw; which calls do is the function \<open>fails\<close> of the
  surroundings \<open>Env\<close>, giving the text that the thrown value prints as. A thrown
  value is represented by that text; \<^verbatim>\<open>new Error(m)\<close> prints as \<^verbatim>\<open>Error: m\<close>.
\<close>

record BqTable =
  tableName :: string
  metaType :: string
  metaQuery :: "string option"
  metaEnableRefresh :: "bool option"
  metaRefreshIntervalMs :: "int option"

record BqDataset =
  metaLocation :: "string option"
  tableList :: "BqTable list"

datatype Mutation =
    CreatedDataset string string
  | CreatedSnapshot string string string string int "Date option"
  | ClonedTable string string string string bool
  | DeletedTable string string
  | CreatedView string string string "bool option" "int option"

record World =
  bqDatasets :: "(string \<times> BqDataset) list"
  bqLog :: "Mutation list"

datatype Call =
    GetDatasets
  | DatasetExists string
  | DatasetGetMetadata string
  | DatasetCreate string
  | GetTables string
  | TableGetMetadata string string
  | TableExists string string
  | TableDelete string string
  | SnapshotJob string string string string
  | CloneJob string string string string
  | CreateViewJob string string

record Env =
  bqProjectId :: string
  fails :: "Call \<Rightarrow> string option"
  now :: int

definition datasetOf :: "World \<Rightarrow> string \<Rightarrow> BqDataset option" where
  "datasetOf w datasetId = map_of (bqDatasets w) datasetId"

definition tableOf :: "World \<Rightarrow> string \<Rightarrow> string \<Rightarrow> BqTable option" where
  "tableOf w datasetId tableId =
     (case datasetOf w datasetId of
        None \<Rightarrow> None
      | Some d \<Rightarrow> find (\<lambda>t. tableName t = tableId) (tableList d))"

fun putTable :: "BqTable \<Rightarrow> BqTable list \<Rightarrow> BqTable list" where
  "putTable t [] = [t]"
| "putTable t (u # us) = (if tableName u = tableName t then t # us else u # putTable t us)"

definition mapDataset :: "string \<Rightarrow> (BqTable list \<Rightarrow> BqTable list) \<Rightarrow> World \<Rightarrow> World" where
  "mapDataset datasetId f w =
     w\<lparr>bqDatasets :=
         map (\<lambda>(k, d). if k = datasetId then (k, d\<lparr>tableList := f (tableList d)\<rparr>) else (k, d))
           (bqDatasets w)\<rparr>"

definition logged :: "Mutation \<Rightarrow> World \<Rightarrow> World" where
  "logged m w = w\<lparr>bqLog := bqLog w @ [m]\<rparr>"

definition plainTable :: "string \<Rightarrow> string \<Rightarrow> BqTable" where
  "plainTable tableId ty =
     \<lparr>tableName = tableId, metaType = ty, metaQuery = None, metaEnableRefresh = None,
      metaRefreshIntervalMs = None\<rparr>"

text \<open>The text of the error of a request for a dataset that is not there.\<close>

definition notFound :: "string \<Rightarrow> string" where
  "notFound datasetId = ''ApiError: Not found: Dataset '' @ datasetId"

section \<open>restore.ts\<close>

text \<open>
  The first field of \<^verbatim>\<open>RestoreOptions\<close> is \<^verbatim>\<open>projectId\<close> in the source; the name
  is taken by \<^verbatim>\<open>BackupOptions\<close>.
\<close>

record RestoreOptions =
  projectId' :: string
  backupTimestamp :: "int option"
  overwrite :: "bool option"

record RestoreResult =
  sourceBackupDatasetId :: string
  targetDatasetId :: string
  tablesRestored :: nat
  materializedViewsRecreated :: nat
  success :: bool
  errors :: "string list"

record MaterializedViewInfo =
  viewId :: string
  query :: string
  enableRefresh :: "bool option"
  refreshIntervalMs :: "int option"

text \<open>
  The outcome that one task of a \<^verbatim>\<open>Promise.all\<close> returns: the table and, when the
  task failed, the message (\<^verbatim>\<open>{ success, tableId, error }\<close>).
\<close>

datatype Outcome = Succeeded string | Failed string string

fun succeeded :: "Outcome \<Rightarrow> bool" where
  "succeeded (Succeeded tableId) = True"
| "succeeded (Failed tableId msg) = False"

fun errorOf :: "Outcome \<Rightarrow> string" where
  "errorOf (Succeeded tableId) = ''Unknown error''"
| "errorOf (Failed tableId msg) = (if msg = [] then ''Unknown error'' else msg)"

text \<open>
  \<^verbatim>\<open>listBackupsForTimestamp\<close>, over the dataset ids that \<^verbatim>\<open>getDatasets\<close>
  returned. The requested instant is a valid Date: index.ts parses it with
  \<^verbatim>\<open>parseTimestamp\<close> or takes it from a group.
\<close>

definition listBackupsForTimestamp :: "string list \<Rightarrow> int \<Rightarrow> BackupInfo list" where
  "listBackupsForTimestamp allDatasets ts =
     (let year = getUTCFullYear ts;
          month = padStart 2 CHR ''0'' (numberToString (getUTCMonth ts + 1));
          day = padStart 2 CHR ''0'' (numberToString (getUTCDate ts));
          hours = padStart 2 CHR ''0'' (numberToString (getUTCHours ts));
          minutes = padStart 2 CHR ''0'' (numberToString (getUTCMinutes ts));
          seconds = padStart 2 CHR ''0'' (numberToString (getUTCSeconds ts));
          timestampStr = numberToString year @ month @ day @ ''_'' @ hours @ minutes @ seconds
      in List.map_filter
           (\<lambda>datasetId.
              if \<not> startsWith datasetId BACKUP_DATASET_PREFIX then None
              else if \<not> includesStr datasetId timestampStr then None
              else
                let parts = split CHR ''_'' datasetId in
                if length parts < 5 then None
                else Some \<lparr>backupDatasetId = datasetId,
                           sourceDatasetId = join ''_'' (drop 4 parts),
                           timestamp = ts\<rparr>)
           allDatasets)"

text \<open>\<^verbatim>\<open>listBackupTables\<close>: a table whose metadata cannot be read is passed over.\<close>

definition listBackupTables :: "Env \<Rightarrow> World \<Rightarrow> string \<Rightarrow> string + string list" where
  "listBackupTables env w backupId =
     (case fails env (GetTables backupId) of
        Some e \<Rightarrow> Inl e
      | None \<Rightarrow>
          (case datasetOf w backupId of
             None \<Rightarrow> Inl (notFound backupId)
           | Some d \<Rightarrow>
               Inr (List.map_filter
                      (\<lambda>t. case fails env (TableGetMetadata backupId (tableName t)) of
                              Some e \<Rightarrow> None
                            | None \<Rightarrow> if metaType t = ''SNAPSHOT'' then Some (tableName t) else None)
                      (tableList d))))"

definition listMaterializedViews :: "Env \<Rightarrow> World \<Rightarrow> string \<Rightarrow> string + MaterializedViewInfo list" where
  "listMaterializedViews env w datasetId =
     (case fails env (GetTables datasetId) of
        Some e \<Rightarrow> Inl e
      | None \<Rightarrow>
          (case datasetOf w datasetId of
             None \<Rightarrow> Inl (notFound datasetId)
           | Some d \<Rightarrow>
               Inr (List.map_filter
                      (\<lambda>t. case fails env (TableGetMetadata datasetId (tableName t)) of
                              Some e \<Rightarrow> None
                            | None \<Rightarrow>
                                if metaType t = ''MATERIALIZED_VIEW'' then
                                  (case metaQuery t of
                                     None \<Rightarrow> None
                                   | Some mvQuery \<Rightarrow>
                                       if mvQuery = [] then None
                                       else Some \<lparr>viewId = tableName t, query = mvQuery,
                                                  enableRefresh = metaEnableRefresh t,
                                                  refreshIntervalMs = metaRefreshIntervalMs t\<rparr>)
                                else None)
                      (tableList d))))"

definition recreateMaterializedView ::
  "Env \<Rightarrow> World \<Rightarrow> string \<Rightarrow> MaterializedViewInfo \<Rightarrow> (string + unit) \<times> World"
where
  "recreateMaterializedView env w datasetId mv =
     (case fails env (TableExists datasetId (viewId mv)) of
        Some e \<Rightarrow> (Inl e, w)
      | None \<Rightarrow>
          (case (if tableOf w datasetId (viewId mv) \<noteq> None
                 then (case fails env (TableDelete datasetId (viewId mv)) of
                         Some e \<Rightarrow> Inl e
                       | None \<Rightarrow>
                           Inr (logged (DeletedTable datasetId (viewId mv))
                                  (mapDataset datasetId
                                     (filter (\<lambda>t. tableName t \<noteq> viewId mv)) w)))
                 else Inr w) of
             Inl e \<Rightarrow> (Inl e, w)
           | Inr w1 \<Rightarrow>
               (case fails env (CreateViewJob datasetId (viewId mv)) of
                  Some e \<Rightarrow> (Inl e, w1)
                | None \<Rightarrow>
                    (Inr (),
                     logged (CreatedView datasetId (viewId mv) (query mv) (enableRefresh mv)
                               (refreshIntervalMs mv))
                       (mapDataset datasetId
                          (putTable \<lparr>tableName = viewId mv, metaType = ''MATERIALIZED_VIEW'',
                                     metaQuery = Some (query mv),
                                     metaEnableRefresh = enableRefresh mv,
                                     metaRefreshIntervalMs = refreshIntervalMs mv\<rparr>) w1)))))"

fun recreateEach :: "Env \<Rightarrow> string \<Rightarrow> MaterializedViewInfo list \<Rightarrow> World \<Rightarrow> nat \<times> World" where
  "recreateEach env datasetId [] w = (0, w)"
| "recreateEach env datasetId (mv # mvs) w =
     (case recreateMaterializedView env w datasetId mv of
        (Inl e, w1) \<Rightarrow> recreateEach env datasetId mvs w1
      | (Inr u, w1) \<Rightarrow>
          (case recreateEach env datasetId mvs w1 of (n, w2) \<Rightarrow> (Suc n, w2)))"

definition recreateMaterializedViewsInDataset :: "Env \<Rightarrow> World \<Rightarrow> string \<Rightarrow> nat \<times> World" where
  "recreateMaterializedViewsInDataset env w datasetId =
     (case listMaterializedViews env w datasetId of
        Inl e \<Rightarrow> (0, w)
      | Inr materializedViews \<Rightarrow>
          if materializedViews = [] then (0, w)
          else recreateEach env datasetId materializedViews w)"

definition targetExistsMessage :: "Env \<Rightarrow> string \<Rightarrow> string \<Rightarrow> string" where
  "targetExistsMessage env targetId tableId =
     ''Error: Target table `'' @ bqProjectId env @ ''.'' @ targetId @ ''.'' @ tableId
     @ ''` already exists. Use --overwrite to replace it.''"

definition restoreTable ::
  "Env \<Rightarrow> World \<Rightarrow> string \<Rightarrow> string \<Rightarrow> string \<Rightarrow> string \<Rightarrow> bool \<Rightarrow> (string + unit) \<times> World"
where
  "restoreTable env w sourceBackupId sourceTableId targetId targetTableId ow =
     (case fails env (TableExists targetId targetTableId) of
        Some e \<Rightarrow> (Inl e, w)
      | None \<Rightarrow>
          let targetExists = (tableOf w targetId targetTableId \<noteq> None) in
          if targetExists \<and> \<not> ow then (Inl (targetExistsMessage env targetId targetTableId), w)
          else
            (case fails env (CloneJob sourceBackupId sourceTableId targetId targetTableId) of
               Some e \<Rightarrow> (Inl e, w)
             | None \<Rightarrow>
                 (Inr (),
                  logged (ClonedTable sourceBackupId sourceTableId targetId targetTableId ow)
                    (mapDataset targetId (putTable (plainTable targetTableId ''TABLE'')) w))))"

text \<open>
  The tasks of \<^verbatim>\<open>Promise.all(tableIds.map(...))\<close>, taken in the order of the
  array, which is also the order of the results.
\<close>

fun restoreTables ::
  "Env \<Rightarrow> string \<Rightarrow> string \<Rightarrow> bool \<Rightarrow> string list \<Rightarrow> World \<Rightarrow> Outcome list \<times> World"
where
  "restoreTables env backupId targetId ow [] w = ([], w)"
| "restoreTables env backupId targetId ow (tableId # rest) w =
     (case restoreTable env w backupId tableId targetId tableId ow of
        (r, w1) \<Rightarrow>
          (case restoreTables env backupId targetId ow rest w1 of
             (rs, w2) \<Rightarrow>
               ((case r of
                   Inr u \<Rightarrow> Succeeded tableId
                 | Inl e \<Rightarrow> Failed tableId (''Failed to restore table '' @ tableId @ '': '' @ e)) # rs,
                w2)))"

text \<open>
  Making sure that the target dataset is there: \<open>Inl\<close> is what the \<^verbatim>\<open>catch\<close> of the
  loop body receives.
\<close>

definition ensureTargetDataset :: "Env \<Rightarrow> World \<Rightarrow> string \<Rightarrow> string \<Rightarrow> string + World" where
  "ensureTargetDataset env w backupId targetId =
     (case fails env (DatasetExists targetId) of
        Some e \<Rightarrow> Inl e
      | None \<Rightarrow>
          if datasetOf w targetId \<noteq> None then Inr w
          else
            (case fails env (DatasetGetMetadata backupId) of
               Some e \<Rightarrow> Inl e
             | None \<Rightarrow>
                 (case datasetOf w backupId of
                    None \<Rightarrow> Inl (notFound backupId)
                  | Some b \<Rightarrow>
                      (case fails env (DatasetCreate targetId) of
                         Some e \<Rightarrow> Inl e
                       | None \<Rightarrow>
                           let loc = (case metaLocation b of
                                        None \<Rightarrow> ''US''
                                      | Some l \<Rightarrow> if l = [] then ''US'' else l)
                           in Inr (logged (CreatedDataset targetId loc)
                                     (w\<lparr>bqDatasets := bqDatasets w
                                          @ [(targetId, \<lparr>metaLocation = Some loc, tableList = []\<rparr>)]\<rparr>))))))"

text \<open>The body of the loop of \<^verbatim>\<open>restoreBackups\<close> for one backup dataset.\<close>

definition restoreOneBackup :: "Env \<Rightarrow> bool \<Rightarrow> World \<Rightarrow> BackupInfo \<Rightarrow> RestoreResult \<times> World" where
  "restoreOneBackup env ow w backup =
     (let result = \<lparr>sourceBackupDatasetId = BackupInfo.backupDatasetId backup,
                    targetDatasetId = BackupInfo.sourceDatasetId backup,
                    tablesRestored = 0, materializedViewsRecreated = 0,
                    success = False, errors = []\<rparr>;
          caught = (\<lambda>e w1.
            (result\<lparr>errors := [''Error restoring from backup '' @ BackupInfo.backupDatasetId backup
                                 @ '': '' @ e],
                    success := False\<rparr>, w1))
      in case listBackupTables env w (BackupInfo.backupDatasetId backup) of
           Inl e \<Rightarrow> caught e w
         | Inr tableIds \<Rightarrow>
             if tableIds = [] then (result\<lparr>success := True\<rparr>, w)
             else
               (case ensureTargetDataset env w (BackupInfo.backupDatasetId backup)
                       (targetDatasetId result) of
                  Inl e \<Rightarrow> caught e w
                | Inr w1 \<Rightarrow>
                    (case restoreTables env (BackupInfo.backupDatasetId backup)
                            (targetDatasetId result) ow tableIds w1 of
                       (restoreResults, w2) \<Rightarrow>
                         (case recreateMaterializedViewsInDataset env w2 (targetDatasetId result) of
                            (recreated, w3) \<Rightarrow>
                              let successful = length (filter succeeded restoreResults);
                                  failed = filter (\<lambda>r. \<not> succeeded r) restoreResults
                              in (result\<lparr>tablesRestored := successful,
                                         materializedViewsRecreated := recreated,
                                         success := (length failed = 0),
                                         errors := (if length failed > 0 then map errorOf failed
                                                    else [])\<rparr>,
                                  w3)))))"

fun restoreEach :: "Env \<Rightarrow> bool \<Rightarrow> BackupInfo list \<Rightarrow> World \<Rightarrow> RestoreResult list \<times> World" where
  "restoreEach env ow [] w = ([], w)"
| "restoreEach env ow (backup # rest) w =
     (case restoreOneBackup env ow w backup of
        (r, w1) \<Rightarrow> (case restoreEach env ow rest w1 of (rs, w2) \<Rightarrow> (r # rs, w2)))"

definition restoreBackups :: "Env \<Rightarrow> World \<Rightarrow> RestoreOptions \<Rightarrow> (string + RestoreResult list) \<times> World" where
  "restoreBackups env w options =
     (case backupTimestamp options of
        None \<Rightarrow> (Inl ''Error: Backup timestamp is required'', w)
      | Some ts \<Rightarrow>
          (case fails env GetDatasets of
             Some e \<Rightarrow> (Inl e, w)
           | None \<Rightarrow>
               let found = listBackupsForTimestamp (map fst (bqDatasets w)) ts in
               if length found = 0
               then (Inl (''Error: No backup datasets found for timestamp: '' @ toISOString ts), w)
               else
                 (case restoreEach env (case overwrite options of Some b \<Rightarrow> b | None \<Rightarrow> False)
                         found w of
                    (results, w1) \<Rightarrow> (Inr results, w1))))"

section \<open>types.ts and backup.ts\<close>

record BackupOptions =
  projectId :: string
  datasets :: "string list option"
  timestamp :: "int option"
  expirationDays :: "int option"

text \<open>
  The first field of \<^verbatim>\<open>BackupResult\<close> is \<^verbatim>\<open>backupDatasetId\<close> in the source; the
  name is taken by \<^verbatim>\<open>BackupInfo\<close>.
\<close>

record BackupResult =
  backupDatasetId' :: string
  sourceDatasetId :: string
  timestamp :: int
  tablesBackedUp :: nat
  success :: bool
  errors :: "string list"

text \<open>The location of a table is copied into \<^verbatim>\<open>TableInfo\<close> but never read; it is left out.\<close>

record TableInfo =
  tableId :: string
  tableType :: string

record DatasetInfo =
  datasetId :: string
  location :: "string option"
  tables :: "TableInfo list"

definition DEFAULT_EXPIRATION_DAYS :: int where
  "DEFAULT_EXPIRATION_DAYS = 90"

text \<open>
  \<^verbatim>\<open>listDatasets\<close> with a list of ids: a dataset that does not exist is passed over
  with a warning; an error of a call is thrown again and ends the listing.
\<close>

fun listSpecificDatasets :: "Env \<Rightarrow> World \<Rightarrow> string list \<Rightarrow> string + DatasetInfo list" where
  "listSpecificDatasets env w [] = Inr []"
| "listSpecificDatasets env w (dsId # rest) =
     (case fails env (DatasetExists dsId) of
        Some e \<Rightarrow> Inl e
      | None \<Rightarrow>
          (case datasetOf w dsId of
             None \<Rightarrow> listSpecificDatasets env w rest
           | Some d \<Rightarrow>
               (case fails env (DatasetGetMetadata dsId) of
                  Some e \<Rightarrow> Inl e
                | None \<Rightarrow>
                    (case listSpecificDatasets env w rest of
                       Inl e \<Rightarrow> Inl e
                     | Inr infos \<Rightarrow>
                         Inr (\<lparr>datasetId = dsId, location = metaLocation d, tables = []\<rparr>
                              # infos)))))"

text \<open>\<^verbatim>\<open>listDatasets\<close> without ids: every dataset but those with the backup prefix.\<close>

fun listAllDatasets :: "Env \<Rightarrow> (string \<times> BqDataset) list \<Rightarrow> string + DatasetInfo list" where
  "listAllDatasets env [] = Inr []"
| "listAllDatasets env ((dsId, d) # rest) =
     (if dsId \<noteq> [] \<and> startsWith dsId BACKUP_DATASET_PREFIX then listAllDatasets env rest
      else
        (case fails env (DatasetGetMetadata dsId) of
           Some e \<Rightarrow> Inl e
         | None \<Rightarrow>
             (case listAllDatasets env rest of
                Inl e \<Rightarrow> Inl e
              | Inr infos \<Rightarrow>
                  Inr (\<lparr>datasetId = dsId, location = metaLocation d, tables = []\<rparr> # infos))))"

definition listDatasets :: "Env \<Rightarrow> World \<Rightarrow> string list option \<Rightarrow> string + DatasetInfo list" where
  "listDatasets env w dss =
     (if (case dss of Some ids \<Rightarrow> length ids > 0 | None \<Rightarrow> False)
      then listSpecificDatasets env w (the dss)
      else
        (case fails env GetDatasets of
           Some e \<Rightarrow> Inl e
         | None \<Rightarrow> listAllDatasets env (bqDatasets w)))"

definition listTables :: "Env \<Rightarrow> World \<Rightarrow> string \<Rightarrow> string + TableInfo list" where
  "listTables env w dsId =
     (case fails env (GetTables dsId) of
        Some e \<Rightarrow> Inl e
      | None \<Rightarrow>
          (case datasetOf w dsId of
             None \<Rightarrow> Inl (notFound dsId)
           | Some d \<Rightarrow>
               Inr (List.map_filter
                      (\<lambda>t. case fails env (TableGetMetadata dsId (tableName t)) of
                              Some e \<Rightarrow> None
                            | None \<Rightarrow>
                                if metaType t = ''TABLE''
                                then Some \<lparr>tableId = tableName t, tableType = metaType t\<rparr>
                                else None)
                      (tableList d))))"

definition createBackupDataset ::
  "Env \<Rightarrow> World \<Rightarrow> string \<Rightarrow> string \<Rightarrow> bool \<Rightarrow> (string + unit) \<times> World"
where
  "createBackupDataset env w backupId sourceLocation dryRun =
     (case fails env (DatasetExists backupId) of
        Some e \<Rightarrow> (Inl e, w)
      | None \<Rightarrow>
          if datasetOf w backupId \<noteq> None
          then (Inl (''Error: Backup dataset '' @ backupId @ '' already exists''), w)
          else if dryRun then (Inr (), w)
          else
            (case fails env (DatasetCreate backupId) of
               Some e \<Rightarrow> (Inl e, w)
             | None \<Rightarrow>
                 (Inr (),
                  logged (CreatedDataset backupId sourceLocation)
                    (w\<lparr>bqDatasets := bqDatasets w
                         @ [(backupId, \<lparr>metaLocation = Some sourceLocation, tableList = []\<rparr>)]\<rparr>))))"

definition createTableSnapshot ::
  "Env \<Rightarrow> World \<Rightarrow> string \<Rightarrow> string \<Rightarrow> string \<Rightarrow> string \<Rightarrow> int \<Rightarrow> Date option \<Rightarrow> bool
   \<Rightarrow> (string + unit) \<times> World"
where
  "createTableSnapshot env w sourceId sourceTableId backupId backupTableId snapshotTimestamp
       expirationTimestamp dryRun =
     (if dryRun then (Inr (), w)
      else
        (case fails env (SnapshotJob sourceId sourceTableId backupId backupTableId) of
           Some e \<Rightarrow> (Inl e, w)
         | None \<Rightarrow>
             (Inr (),
              logged (CreatedSnapshot sourceId sourceTableId backupId backupTableId
                        snapshotTimestamp expirationTimestamp)
                (mapDataset backupId (putTable (plainTable backupTableId ''SNAPSHOT'')) w))))"

text \<open>
  The tasks of \<^verbatim>\<open>Promise.all(tables.map(...))\<close> of one dataset, in the order of the
  array. \<^verbatim>\<open>options.dryRun\<close> is not a field of \<^verbatim>\<open>BackupOptions\<close>: it is
  \<^verbatim>\<open>undefined\<close>, so \<open>dryRun\<close> is false.
\<close>

fun snapshotTables ::
  "Env \<Rightarrow> string \<Rightarrow> string \<Rightarrow> int \<Rightarrow> Date option \<Rightarrow> TableInfo list \<Rightarrow> World \<Rightarrow> Outcome list \<times> World"
where
  "snapshotTables env sourceId backupId ts expiration [] w = ([], w)"
| "snapshotTables env sourceId backupId ts expiration (table # rest) w =
     (case createTableSnapshot env w sourceId (tableId table) backupId (tableId table) ts
             expiration False of
        (r, w1) \<Rightarrow>
          (case snapshotTables env sourceId backupId ts expiration rest w1 of
             (rs, w2) \<Rightarrow>
               ((case r of
                   Inr u \<Rightarrow> Succeeded (tableId table)
                 | Inl e \<Rightarrow>
                     Failed (tableId table)
                       (''Failed to create snapshot for '' @ tableId table @ '': '' @ e)) # rs,
                w2)))"

text \<open>The body of the loop of \<^verbatim>\<open>backupDataset\<close> for one source dataset.\<close>

definition backupOneDataset ::
  "Env \<Rightarrow> int \<Rightarrow> Date option \<Rightarrow> World \<Rightarrow> DatasetInfo \<Rightarrow> BackupResult \<times> World"
where
  "backupOneDataset env backupTs expiration w datasetInfo =
     (let result = \<lparr>backupDatasetId' = [], sourceDatasetId = datasetId datasetInfo,
                    timestamp = backupTs, tablesBackedUp = 0, success = False, errors = []\<rparr>;
          caught = (\<lambda>r e w1.
            (r\<lparr>errors := [''Error backing up dataset '' @ datasetId datasetInfo @ '': '' @ e],
               success := False\<rparr>, w1))
      in case listTables env w (datasetId datasetInfo) of
           Inl e \<Rightarrow> caught result e w
         | Inr tbls \<Rightarrow>
             if length tbls = 0 then (result\<lparr>success := True\<rparr>, w)
             else
               let backupId = generateBackupDatasetName (datasetId datasetInfo) backupTs;
                   result1 = result\<lparr>backupDatasetId' := backupId\<rparr>
               in if (case location datasetInfo of None \<Rightarrow> True | Some l \<Rightarrow> l = [])
                  then caught result1
                         (''Error: Dataset '' @ datasetId datasetInfo
                          @ '' does not have a location specified'') w
                  else
                    (case createBackupDataset env w backupId (the (location datasetInfo)) False of
                       (Inl e, w1) \<Rightarrow> caught result1 e w1
                     | (Inr u, w1) \<Rightarrow>
                         (case snapshotTables env (datasetId datasetInfo) backupId backupTs
                                 expiration tbls w1 of
                            (snapshotResults, w2) \<Rightarrow>
                              let successful = length (filter succeeded snapshotResults);
                                  failed = filter (\<lambda>r. \<not> succeeded r) snapshotResults
                              in (result1\<lparr>tablesBackedUp := successful,
                                          success := (length failed = 0),
                                          errors := (if length failed > 0 then map errorOf failed
                                                     else [])\<rparr>,
                                  w2))))"

fun backupEach ::
  "Env \<Rightarrow> int \<Rightarrow> Date option \<Rightarrow> DatasetInfo list \<Rightarrow> World \<Rightarrow> BackupResult list \<times> World"
where
  "backupEach env backupTs expiration [] w = ([], w)"
| "backupEach env backupTs expiration (datasetInfo # rest) w =
     (case backupOneDataset env backupTs expiration w datasetInfo of
        (r, w1) \<Rightarrow>
          (case backupEach env backupTs expiration rest w1 of (rs, w2) \<Rightarrow> (r # rs, w2)))"

text \<open>
  \<^verbatim>\<open>backupDataset\<close>. The clock is read once: for the instant of the backup when the
  caller gives none, otherwise inside the validation. An expiration that is an invalid
  Date makes \<^verbatim>\<open>toISOString\<close> throw a \<^verbatim>\<open>RangeError\<close> in the log line that
  announces it.
\<close>

definition backupDataset :: "Env \<Rightarrow> World \<Rightarrow> BackupOptions \<Rightarrow> (string + BackupResult list) \<times> World" where
  "backupDataset env w options =
     (let backupTs = (case BackupOptions.timestamp options of Some t \<Rightarrow> t | None \<Rightarrow> now env);
          days = (case expirationDays options of Some n \<Rightarrow> n | None \<Rightarrow> DEFAULT_EXPIRATION_DAYS);
          expiration = calculateExpirationTimestamp backupTs (Some days)
      in if (case BackupOptions.timestamp options of
               Some t \<Rightarrow> \<not> validateTimeTravelTimestamp t (now env)
             | None \<Rightarrow> False)
         then (Inl ''Error: Invalid timestamp for time travel'', w)
         else if expiration = Some None then (Inl ''RangeError: Invalid time value'', w)
         else
           (case listDatasets env w (datasets options) of
              Inl e \<Rightarrow> (Inl e, w)
            | Inr infos \<Rightarrow>
                (case backupEach env backupTs expiration infos w of
                   (results, w1) \<Rightarrow> (Inr results, w1))))"

section \<open>Notions used in the statements\<close>

text \<open>The time values that a Date can hold.\<close>

definition validTime :: "int \<Rightarrow> bool" where
  "validTime t = (\<bar>t\<bar> \<le> 8640000000000000)"


text \<open>
  \<open>appends ts exp w w'\<close>: the log of \<open>w'\<close> is the log of \<open>w\<close> with more entries at
  its end, and every snapshot among the new entries was taken as of \<open>ts\<close> with the
  expiration \<open>exp\<close>.
\<close>

definition snapshotsWith :: "int \<Rightarrow> Date option \<Rightarrow> Mutation list \<Rightarrow> bool" where
  "snapshotsWith ts exp ms =
     (\<forall>a b c d t e. CreatedSnapshot a b c d t e \<in> set ms \<longrightarrow> t = ts \<and> e = exp)"

definition appends :: "int \<Rightarrow> Date option \<Rightarrow> World \<Rightarrow> World \<Rightarrow> bool" where
  "appends ts exp w w' = (\<exists>new. bqLog w' = bqLog w @ new \<and> snapshotsWith ts exp new)"


text \<open>
  A project for the worked examples: nothing throws, the clock shows 2024-12-15T14:30:22Z,
  and there is one dataset in the EU with a table and a view.
\<close>

definition exampleEnv :: Env where
  "exampleEnv = \<lparr>bqProjectId = ''acme'', fails = (\<lambda>c. None), now = 1734273022000\<rparr>"

definition exampleWorld :: World where
  "exampleWorld =
     \<lparr>bqDatasets =
        [(''sales'', \<lparr>metaLocation = Some ''EU'',
                      tableList = [plainTable ''orders'' ''TABLE'', plainTable ''totals'' ''VIEW'']\<rparr>)],
      bqLog = []\<rparr>"


text \<open>What the task of one table returns in \<^verbatim>\<open>backupDataset\<close>, read off the surroundings.\<close>

definition snapshotOutcome :: "Env \<Rightarrow> string \<Rightarrow> string \<Rightarrow> TableInfo \<Rightarrow> Outcome" where
  "snapshotOutcome env sourceId backupId t =
     (case fails env (SnapshotJob sourceId (tableId t) backupId (tableId t)) of
        None \<Rightarrow> Succeeded (tableId t)
      | Some e \<Rightarrow> Failed (tableId t) (''Failed to create snapshot for '' @ tableId t @ '': '' @ e))"


text \<open>
  A second project: two source datasets, and the snapshot of \<^verbatim>\<open>sales.items\<close> fails.
\<close>

definition quotaEnv :: Env where
  "quotaEnv =
     \<lparr>bqProjectId = ''acme'',
      fails = (\<lambda>c. if c = SnapshotJob ''sales'' ''items'' ''zzz_backup_20241215_143022_sales'' ''items''
                    then Some ''ApiError: Quota exceeded'' else None),
      now = 1734273022000\<rparr>"

definition twoDatasets :: World where
  "twoDatasets =
     \<lparr>bqDatasets =
        [(''sales'', \<lparr>metaLocation = Some ''EU'',
                      tableList = [plainTable ''orders'' ''TABLE'', plainTable ''items'' ''TABLE'',
                                   plainTable ''customers'' ''TABLE'']\<rparr>),
         (''hr'', \<lparr>metaLocation = Some ''EU'', tableList = [plainTable ''staff'' ''TABLE'']\<rparr>)],
      bqLog = []\<rparr>"


text \<open>
  What the task of one table returns in \<^verbatim>\<open>restoreBackups\<close>, read off the surroundings
  and the warehouse.
\<close>

definition restoreOutcome :: "Env \<Rightarrow> World \<Rightarrow> string \<Rightarrow> string \<Rightarrow> bool \<Rightarrow> string \<Rightarrow> Outcome" where
  "restoreOutcome env w backupId targetId ow t =
     (case fails env (TableExists targetId t) of
        Some e \<Rightarrow> Failed t (''Failed to restore table '' @ t @ '': '' @ e)
      | None \<Rightarrow>
          if tableOf w targetId t \<noteq> None \<and> \<not> ow
          then Failed t (''Failed to restore table '' @ t @ '': '' @ targetExistsMessage env targetId t)
          else
            (case fails env (CloneJob backupId t targetId t) of
               Some e \<Rightarrow> Failed t (''Failed to restore table '' @ t @ '': '' @ e)
             | None \<Rightarrow> Succeeded t))"

text \<open>\<open>logGrows w w'\<close>: the log of \<open>w'\<close> is the log of \<open>w\<close> with more entries at its end.\<close>

definition logGrows :: "World \<Rightarrow> World \<Rightarrow> bool" where
  "logGrows w w' = (\<exists>new. bqLog w' = bqLog w @ new)"


text \<open>
  A third project: \<^verbatim>\<open>sales\<close> already holds the table \<^verbatim>\<open>orders\<close>, and its backup
  of 2024-12-15T14:30:22Z holds the snapshots \<^verbatim>\<open>orders\<close> and \<^verbatim>\<open>items\<close>.
\<close>

definition restoreWorld :: World where
  "restoreWorld =
     \<lparr>bqDatasets =
        [(''sales'', \<lparr>metaLocation = Some ''EU'',
                      tableList = [plainTable ''orders'' ''TABLE'']\<rparr>),
         (''zzz_backup_20241215_143022_sales'',
          \<lparr>metaLocation = Some ''EU'',
           tableList = [plainTable ''orders'' ''SNAPSHOT'', plainTable ''items'' ''SNAPSHOT'']\<rparr>)],
      bqLog = []\<rparr>"


text \<open>
  The digits of a number written with a fixed width, least significant last. Padding a decimal
  numeral with zeros on the left writes exactly these digits, which makes the padded fields of
  an ISO string comparable.
\<close>

fun fixedDigits :: "nat \<Rightarrow> nat \<Rightarrow> nat list" where
  "fixedDigits 0 n = []"
| "fixedDigits (Suc k) n = fixedDigits k (n div 10) @ [n mod 10]"

text \<open>
  The part of \<^const>\<open>toISOString\<close> after the year: fixed width, nineteen characters.
\<close>

definition isoTail :: "int \<Rightarrow> string" where
  "isoTail t =
     ''-'' @ pad2 (MonthFromTime t + 1) @ ''-'' @ pad2 (DateFromTime t)
     @ ''T'' @ pad2 (HourFromTime t) @ '':'' @ pad2 (MinFromTime t) @ '':'' @ pad2 (SecFromTime t)
     @ ''.'' @ padStart 3 CHR ''0'' (numberToString (msFromTime t)) @ ''Z''"

text \<open>
  The key under which \<open>groupBackupsByTimestamp\<close> files a backup, and the invariant of its
  loop: after the backups \<open>bs\<close> have been seen, the map holds one entry per key, and the entry
  of a key carries the backups with that key in the order seen.
\<close>

definition isoKey :: "BackupInfo \<Rightarrow> string" where
  "isoKey b = toISOString (BackupInfo.timestamp b)"

definition grouped :: "BackupInfo list \<Rightarrow> (string \<times> BackupGroup) list \<Rightarrow> bool" where
  "grouped bs gs =
     (distinct (map fst gs) \<and> set (map fst gs) = isoKey ` set bs
      \<and> (\<forall>p \<in> set gs.
            timestampStr (snd p) = fst p \<and> toISOString (BackupGroup.timestamp (snd p)) = fst p
            \<and> BackupGroup.timestamp (snd p) \<in> BackupInfo.timestamp ` set bs
            \<and> backups (snd p) = filter (\<lambda>b. isoKey b = fst p) bs))"

text \<open>
  Three decoded backups: two sources at 2024-12-15T14:30:22Z and one of them a day earlier.
\<close>

definition analyticsLate :: BackupInfo where
  "analyticsLate =
     \<lparr>backupDatasetId = ''zzz_backup_20241215_143022_analytics'',
      sourceDatasetId = ''analytics'', timestamp = 1734273022000\<rparr>"

definition warehouseLate :: BackupInfo where
  "warehouseLate =
     \<lparr>backupDatasetId = ''zzz_backup_20241215_143022_warehouse'',
      sourceDatasetId = ''warehouse'', timestamp = 1734273022000\<rparr>"

definition analyticsEarly :: BackupInfo where
  "analyticsEarly =
     \<lparr>backupDatasetId = ''zzz_backup_20241214_143022_analytics'',
      sourceDatasetId = ''analytics'', timestamp = 1734186622000\<rparr>"


section \<open>Properties of the calendar functions\<close>

lemma MonthFromTime_range: "0 \<le> MonthFromTime t \<and> MonthFromTime t \<le> 11"
  by (simp add: MonthFromTime_def Let_def)

lemma MakeDay_fields: "MakeDay (YearFromTime t) (MonthFromTime t) dt = Day t - DateFromTime t + dt"
proof -
  have r: "0 \<le> MonthFromTime t" "MonthFromTime t < 12"
    using MonthFromTime_range [of t] by simp_all
  then have "MonthFromTime t div 12 = 0" "MonthFromTime t mod 12 = MonthFromTime t"
    by simp_all
  then show ?thesis
    by (simp add: MakeDay_def DateFromTime_def DayWithinYear_def InLeapYear_def)
qed

lemma Day_TimeWithinDay: "Day t * msPerDay + TimeWithinDay t = t"
  by (simp add: Day_def TimeWithinDay_def)

lemma setUTCDate_shift: "setUTCDate t (getUTCDate t + n) = TimeClip (t + n * msPerDay)"
proof -
  have "MakeDate (Day t + n) (TimeWithinDay t) = Day t * msPerDay + TimeWithinDay t + n * msPerDay"
    by (simp add: MakeDate_def algebra_simps)
  then show ?thesis
    by (simp add: setUTCDate_def getUTCDate_def MakeDay_fields Day_TimeWithinDay)
qed


lemma DayFromYear_1970: "DayFromYear 1970 = 0"
  by (simp add: DayFromYear_def)

lemma DayFromYear_upper: "0 \<le> k \<Longrightarrow> DayFromYear (1970 + k) \<le> 366 * k"
proof (induction k rule: int_ge_induct)
  case base
  show ?case by (simp add: DayFromYear_1970)
next
  case (step i)
  have "DayFromYear (1970 + (i + 1)) = DayFromYear (1970 + i) + DaysInYear (1970 + i)"
    using DayFromYear_Suc [of "1970 + i"] by (simp add: add.assoc)
  moreover have "DaysInYear (1970 + i) \<le> 366" by (simp add: DaysInYear_def)
  ultimately show ?case using step.IH by simp
qed

lemma DayFromYear_lower: "k \<le> 0 \<Longrightarrow> DayFromYear (1970 + k) \<le> 365 * k"
proof (induction k rule: int_le_induct)
  case base
  show ?case by (simp add: DayFromYear_1970)
next
  case (step i)
  have "DayFromYear (1970 + i) = DayFromYear (1970 + (i - 1)) + DaysInYear (1970 + (i - 1))"
    using DayFromYear_Suc [of "1970 + (i - 1)"] by (simp add: add.assoc)
  moreover have "365 \<le> DaysInYear (1970 + (i - 1))" by (simp add: DaysInYear_def)
  ultimately show ?case using step.IH by simp
qed

lemma yearEstimate_le: "DayFromYear (yearEstimate d) \<le> d"
proof (cases "0 \<le> d")
  case True
  then have "0 \<le> d div 366" by simp
  then have "DayFromYear (1970 + d div 366) \<le> 366 * (d div 366)" by (rule DayFromYear_upper)
  also have "\<dots> \<le> d" using mult_div_mod_eq [of 366 d] pos_mod_sign [of 366 d] by linarith
  finally show ?thesis using True by (simp add: yearEstimate_def)
next
  case False
  then have "d div 365 \<le> 0" using div_neg_pos_less0 [of d 365] by simp
  then have "DayFromYear (1970 + d div 365) \<le> 365 * (d div 365)" by (rule DayFromYear_lower)
  also have "\<dots> \<le> d" using mult_div_mod_eq [of 365 d] pos_mod_sign [of 365 d] by linarith
  finally show ?thesis using False by (simp add: yearEstimate_def)
qed

lemma yearSearch_bounds:
  "DayFromYear y \<le> d \<Longrightarrow>
   DayFromYear (yearSearch d y) \<le> d \<and> d < DayFromYear (yearSearch d y + 1)"
proof (induction d y rule: yearSearch.induct)
  case (1 d y)
  show ?case
  proof (cases "DayFromYear (y + 1) \<le> d")
    case True
    with "1.IH" show ?thesis by (subst (1 2) yearSearch.simps) simp
  next
    case False
    with "1.prems" show ?thesis by (subst (1 2) yearSearch.simps) simp
  qed
qed

lemma DayFromYear_mono: "y \<le> y' \<Longrightarrow> DayFromYear y \<le> DayFromYear y'"
proof (induction y' rule: int_ge_induct)
  case base
  show ?case by simp
next
  case (step i)
  then show ?case using DayFromYear_less [of i] by simp
qed

text \<open>YearFromTime meets its definition in the standard.\<close>

lemma YearFromTime_bounds:
  "DayFromYear (YearFromTime t) \<le> Day t \<and> Day t < DayFromYear (YearFromTime t + 1)"
  unfolding YearFromTime_def by (rule yearSearch_bounds) (rule yearEstimate_le)

lemma YearFromTime_unique:
  assumes "DayFromYear y \<le> Day t" "Day t < DayFromYear (y + 1)"
  shows "YearFromTime t = y"
proof (rule ccontr)
  assume ne: "YearFromTime t \<noteq> y"
  note b = YearFromTime_bounds [of t]
  show False
  proof (cases "YearFromTime t < y")
    case True
    then have "DayFromYear (YearFromTime t + 1) \<le> DayFromYear y" by (intro DayFromYear_mono) simp
    with b assms show False by simp
  next
    case False
    with ne have "DayFromYear (y + 1) \<le> DayFromYear (YearFromTime t)" by (intro DayFromYear_mono) simp
    with b assms show False by simp
  qed
qed

lemma DayWithinYear_range:
  "0 \<le> DayWithinYear t \<and> DayWithinYear t < DaysInYear (YearFromTime t)"
  using YearFromTime_bounds [of t] DayFromYear_Suc [of "YearFromTime t"]
  by (simp add: DayWithinYear_def)

lemma HourFromTime_range: "0 \<le> HourFromTime t \<and> HourFromTime t < 24"
  by (simp add: HourFromTime_def)
lemma MinFromTime_range: "0 \<le> MinFromTime t \<and> MinFromTime t < 60"
  by (simp add: MinFromTime_def)
lemma SecFromTime_range: "0 \<le> SecFromTime t \<and> SecFromTime t < 60"
  by (simp add: SecFromTime_def)

lemma MakeTime_fields:
  "MakeTime (HourFromTime t) (MinFromTime t) (SecFromTime t) 0 = TimeWithinDay t - msFromTime t"
proof -
  have a: "t mod 60000 = 1000 * (t div 1000 mod 60) + t mod 1000"
    using zmod_zmult2_eq [of 60 t 1000] by simp
  have b: "t mod 3600000 = 60000 * (t div 60000 mod 60) + t mod 60000"
    using zmod_zmult2_eq [of 60 t 60000] by simp
  have c: "t mod 86400000 = 3600000 * (t div 3600000 mod 24) + t mod 3600000"
    using zmod_zmult2_eq [of 24 t 3600000] by simp
  show ?thesis
    unfolding MakeTime_def HourFromTime_def MinFromTime_def SecFromTime_def TimeWithinDay_def
      msFromTime_def msPerHour_def msPerMinute_def msPerSecond_def msPerDay_def
    using a b c by linarith
qed

lemma MakeDate_fields:
  "MakeDate (MakeDay (YearFromTime t) (MonthFromTime t) (DateFromTime t))
     (MakeTime (HourFromTime t) (MinFromTime t) (SecFromTime t) 0) = t - msFromTime t"
proof -
  have "MakeDay (YearFromTime t) (MonthFromTime t) (DateFromTime t) = Day t"
    by (simp add: MakeDay_fields)
  then show ?thesis
    using Day_TimeWithinDay [of t] by (simp only: MakeTime_fields MakeDate_def)
qed


lemma InLeapYear_cases:
  "InLeapYear t = 0 \<and> DaysInYear (YearFromTime t) = 365 \<or>
   InLeapYear t = 1 \<and> DaysInYear (YearFromTime t) = 366"
  by (simp add: InLeapYear_def DaysInYear_def)

lemma monthDay_range:
  fixes d l :: int
  assumes "0 \<le> d" "d < 365 + l" "l = 0 \<or> l = 1"
  shows "1 \<le> d - monthStart (if d < 31 then 0 else if d < 59 + l then 1 else if d < 90 + l then 2
      else if d < 120 + l then 3 else if d < 151 + l then 4
      else if d < 181 + l then 5 else if d < 212 + l then 6
      else if d < 243 + l then 7 else if d < 273 + l then 8
      else if d < 304 + l then 9 else if d < 334 + l then 10 else 11) l + 1 \<and>
     d - monthStart (if d < 31 then 0 else if d < 59 + l then 1 else if d < 90 + l then 2
      else if d < 120 + l then 3 else if d < 151 + l then 4
      else if d < 181 + l then 5 else if d < 212 + l then 6
      else if d < 243 + l then 7 else if d < 273 + l then 8
      else if d < 304 + l then 9 else if d < 334 + l then 10 else 11) l + 1 \<le> 31"
  using assms by (simp add: monthStart_def) arith

lemma DateFromTime_range: "1 \<le> DateFromTime t \<and> DateFromTime t \<le> 31"
proof -
  have "0 \<le> DayWithinYear t" "DayWithinYear t < 365 + InLeapYear t"
    "InLeapYear t = 0 \<or> InLeapYear t = 1"
    using DayWithinYear_range [of t] InLeapYear_cases [of t] by auto
  then show ?thesis
    unfolding DateFromTime_def MonthFromTime_def Let_def by (rule monthDay_range)
qed

section \<open>Properties of the string functions\<close>

lemma split_nonempty: "split c s \<noteq> []"
  by (induction s) (auto split: list.splits)

lemma split_no_sep: "c \<notin> set a \<Longrightarrow> split c a = [a]"
  by (induction a) auto

lemma split_append: "c \<notin> set a \<Longrightarrow> split c (a @ c # b) = a # split c b"
  by (induction a) auto

lemma join_Cons: "ps \<noteq> [] \<Longrightarrow> join sep (p # ps) = p @ sep @ join sep ps"
  by (cases ps) auto

lemma join_split: "join [c] (split c s) = s"
proof (induction s)
  case Nil
  show ?case by simp
next
  case (Cons x xs)
  show ?case
  proof (cases "x = c")
    case True
    then show ?thesis using Cons split_nonempty [of c xs] by (simp add: join_Cons)
  next
    case False
    obtain p ps where e: "split c xs = p # ps"
      using split_nonempty [of c xs] by (cases "split c xs") auto
    show ?thesis
    proof (cases ps)
      case Nil
      with e Cons False show ?thesis by simp
    next
      case (Cons q qs)
      with e Cons.IH False show ?thesis by simp
    qed
  qed
qed

lemma of_char_digitChar: "n < 10 \<Longrightarrow> of_char (digitChar n) = 48 + n"
  by (simp add: digitChar_def)

lemma isDigit_digitChar: "n < 10 \<Longrightarrow> isDigit (digitChar n)"
  by (simp add: isDigit_def of_char_digitChar)

lemma not_ws_digitChar: "n < 10 \<Longrightarrow> \<not> isWhiteSpace (digitChar n)"
  by (simp add: isWhiteSpace_def of_char_digitChar)

lemma digitVal_digitChar: "n < 10 \<Longrightarrow> digitVal (digitChar n) = int n"
  by (simp add: digitVal_def of_char_digitChar)

lemma digitChar_neq:
  assumes "n < 10"
  shows "digitChar n \<noteq> CHR ''-''" "digitChar n \<noteq> CHR ''+''" "digitChar n \<noteq> CHR ''_''"
proof -
  have e: "(of_char (digitChar n) :: nat) = 48 + n" using assms by (rule of_char_digitChar)
  show "digitChar n \<noteq> CHR ''-''"
  proof
    assume "digitChar n = CHR ''-''"
    then have "(of_char (digitChar n) :: nat) = of_char CHR ''-''" by simp
    with e show False by simp
  qed
  show "digitChar n \<noteq> CHR ''+''"
  proof
    assume "digitChar n = CHR ''+''"
    then have "(of_char (digitChar n) :: nat) = of_char CHR ''+''" by simp
    with e show False by simp
  qed
  show "digitChar n \<noteq> CHR ''_''"
  proof
    assume "digitChar n = CHR ''_''"
    then have "(of_char (digitChar n) :: nat) = of_char CHR ''_''" by simp
    with e assms show False by simp
  qed
qed

lemma natString_1: "n < 10 \<Longrightarrow> natString n = [digitChar n]"
  by (simp add: natString.simps)

lemma natString_2: "10 \<le> n \<Longrightarrow> n < 100 \<Longrightarrow> natString n = [digitChar (n div 10), digitChar (n mod 10)]"
  by (subst natString.simps) (simp add: natString_1)

lemma natString_3: "100 \<le> n \<Longrightarrow> n < 1000 \<Longrightarrow>
  natString n = [digitChar (n div 100), digitChar (n div 10 mod 10), digitChar (n mod 10)]"
  by (subst natString.simps) (simp add: natString_2 div_mult2_eq [symmetric])

lemma natString_4: "1000 \<le> n \<Longrightarrow> n < 10000 \<Longrightarrow>
  natString n = [digitChar (n div 1000), digitChar (n div 100 mod 10), digitChar (n div 10 mod 10), digitChar (n mod 10)]"
  by (subst natString.simps) (simp add: natString_3 div_mult2_eq [symmetric])

lemma pad2_digits: "0 \<le> n \<Longrightarrow> n < 100 \<Longrightarrow>
  padStart 2 CHR ''0'' (numberToString n) = [digitChar (nat n div 10), digitChar (nat n mod 10)]"
proof (cases "n < 10")
  case True
  assume "0 \<le> n"
  with True have "natString (nat n) = [digitChar (nat n)]" by (simp add: natString_1)
  moreover have "digitChar 0 = CHR ''0''"
  proof -
    have "char_of (of_char CHR ''0'' :: nat) = CHR ''0''" by (rule char_of_char)
    then show ?thesis by (simp add: digitChar_def)
  qed
  ultimately show ?thesis using True \<open>0 \<le> n\<close> by (simp add: padStart_def numberToString_def)
next
  case False
  assume "0 \<le> n" "n < 100"
  with False have "natString (nat n) = [digitChar (nat n div 10), digitChar (nat n mod 10)]"
    by (simp add: natString_2)
  then show ?thesis using \<open>0 \<le> n\<close> by (simp add: padStart_def numberToString_def)
qed

lemma parseInt_2: "a < 10 \<Longrightarrow> b < 10 \<Longrightarrow> parseInt [digitChar a, digitChar b] = Some (int (10 * a + b))"
  by (simp add: parseInt_def Let_def not_ws_digitChar digitChar_neq isDigit_digitChar
      digitsVal_def digitVal_digitChar)

lemma parseInt_4: "a < 10 \<Longrightarrow> b < 10 \<Longrightarrow> c < 10 \<Longrightarrow> d < 10 \<Longrightarrow>
  parseInt [digitChar a, digitChar b, digitChar c, digitChar d] = Some (int (1000 * a + 100 * b + 10 * c + d))"
  by (simp add: parseInt_def Let_def not_ws_digitChar digitChar_neq isDigit_digitChar
      digitsVal_def digitVal_digitChar)

section \<open>The codec: decoding a generated name\<close>

lemma digits4: "1000 * (n div 1000) + 100 * (n div 100 mod 10) + 10 * (n div 10 mod 10) + n mod 10 = (n::nat)"
proof -
  have a: "n div 10 = 10 * (n div 100) + n div 10 mod 10"
    using div_mult2_eq [of n 10 10] by simp
  have b: "n div 100 = 10 * (n div 1000) + n div 100 mod 10"
    using div_mult2_eq [of n 100 10] by simp
  have c: "n = 10 * (n div 10) + n mod 10" by simp
  show ?thesis using a b c by linarith
qed

lemma digits2: "10 * (n div 10) + n mod 10 = (n::nat)"
  by simp

lemma underscore_notin_digits:
  "\<forall>c \<in> set ds. isDigit c \<Longrightarrow> CHR ''_'' \<notin> set ds"
  by (auto simp: isDigit_def)

text \<open>What the loop body computes on a name whose two segments are eight and six digits.\<close>

lemma decode_digits:
  assumes "y1 < 10" "y2 < 10" "y3 < 10" "y4 < 10" "m1 < 10" "m2 < 10" "d1 < 10" "d2 < 10"
    "h1 < 10" "h2 < 10" "i1 < 10" "i2 < 10" "s1 < 10" "s2 < 10"
  shows "decodeBackupDataset
           (BACKUP_DATASET_PREFIX
             @ [digitChar y1, digitChar y2, digitChar y3, digitChar y4,
                digitChar m1, digitChar m2, digitChar d1, digitChar d2]
             @ ''_'' @ [digitChar h1, digitChar h2, digitChar i1, digitChar i2,
                digitChar s1, digitChar s2] @ ''_'' @ src)
         = (case Date_UTC (Some (int (1000 * y1 + 100 * y2 + 10 * y3 + y4)))
                  (Some (int (10 * m1 + m2) - 1)) (Some (int (10 * d1 + d2)))
                  (Some (int (10 * h1 + h2))) (Some (int (10 * i1 + i2)))
                  (Some (int (10 * s1 + s2))) of
              None \<Rightarrow> None
            | Some t \<Rightarrow> Some \<lparr>backupDatasetId = BACKUP_DATASET_PREFIX
             @ [digitChar y1, digitChar y2, digitChar y3, digitChar y4,
                digitChar m1, digitChar m2, digitChar d1, digitChar d2]
             @ ''_'' @ [digitChar h1, digitChar h2, digitChar i1, digitChar i2,
                digitChar s1, digitChar s2] @ ''_'' @ src, sourceDatasetId = src, timestamp = t\<rparr>)"
proof -
  let ?dp = "[digitChar y1, digitChar y2, digitChar y3, digitChar y4,
                digitChar m1, digitChar m2, digitChar d1, digitChar d2]"
  let ?tp = "[digitChar h1, digitChar h2, digitChar i1, digitChar i2,
                digitChar s1, digitChar s2]"
  let ?name = "BACKUP_DATASET_PREFIX @ ?dp @ ''_'' @ ?tp @ ''_'' @ src"
  have nd: "CHR ''_'' \<notin> set ?dp" "CHR ''_'' \<notin> set ?tp"
    using assms by (simp_all add: digitChar_neq digitChar_neq [symmetric])
  have sw: "startsWith ?name BACKUP_DATASET_PREFIX"
    by (simp add: startsWith_def BACKUP_DATASET_PREFIX_def)
  have "?name = ''zzz'' @ CHR ''_'' # (''backup'' @ CHR ''_'' # (?dp @ CHR ''_'' # (?tp @ CHR ''_'' # src)))"
    by (simp add: BACKUP_DATASET_PREFIX_def)
  then have "split CHR ''_'' ?name =
      ''zzz'' # split CHR ''_'' (''backup'' @ CHR ''_'' # (?dp @ CHR ''_'' # (?tp @ CHR ''_'' # src)))"
    by (simp only: split_append [of "CHR ''_''" "''zzz''"]) (simp add: split_append)
  also have "\<dots> = ''zzz'' # ''backup'' # split CHR ''_'' (?dp @ CHR ''_'' # (?tp @ CHR ''_'' # src))"
    using split_append [of "CHR ''_''" "''backup''"] by simp
  also have "\<dots> = ''zzz'' # ''backup'' # ?dp # split CHR ''_'' (?tp @ CHR ''_'' # src)"
    using split_append [OF nd(1)] by simp
  also have "\<dots> = ''zzz'' # ''backup'' # ?dp # ?tp # split CHR ''_'' src"
    using split_append [OF nd(2)] by simp
  finally have parts: "split CHR ''_'' ?name = ''zzz'' # ''backup'' # ?dp # ?tp # split CHR ''_'' src" .
  have len: "\<not> length (split CHR ''_'' ?name) < 5"
  proof -
    have "length (split CHR ''_'' ?name) = 4 + length (split CHR ''_'' src)"
      by (simp only: parts) simp
    moreover have "0 < length (split CHR ''_'' src)"
      using split_nonempty [of "CHR ''_''" src] by simp
    ultimately show ?thesis by simp
  qed
  have tsp: "split CHR ''_'' (?dp @ ''_'' @ ?tp) = [?dp, ?tp]"
    using split_append [OF nd(1), of ?tp] split_no_sep [OF nd(2)] by simp
  have p: "parseInt (substring 0 4 ?dp) = Some (int (1000 * y1 + 100 * y2 + 10 * y3 + y4))"
    "parseInt (substring 4 6 ?dp) = Some (int (10 * m1 + m2))"
    "parseInt (substring 6 8 ?dp) = Some (int (10 * d1 + d2))"
    "parseInt (substring 0 2 ?tp) = Some (int (10 * h1 + h2))"
    "parseInt (substring 2 4 ?tp) = Some (int (10 * i1 + i2))"
    "parseInt (substring 4 6 ?tp) = Some (int (10 * s1 + s2))"
    using assms by (simp_all add: substring_def parseInt_2 parseInt_4)
  have n: "split CHR ''_'' ?name ! 2 = ?dp" "split CHR ''_'' ?name ! 3 = ?tp"
    "drop 4 (split CHR ''_'' ?name) = split CHR ''_'' src"
    by (simp_all only: parts) simp_all
  have chk: "\<not> (?dp = [] \<or> ?tp = [] \<or> length ?dp \<noteq> 8 \<or> length ?tp \<noteq> 6)"
    by simp
  show ?thesis
    unfolding decodeBackupDataset_def
    by (simp only: sw len Let_def n tsp join_split p chk list.case option.map
        if_True if_False not_True_eq_False not_False_eq_True)
qed

lemma formatBackupTimestamp_digits:
  assumes "1000 \<le> YearFromTime t" "YearFromTime t \<le> 9999"
  shows "formatBackupTimestamp t =
     (let y = nat (YearFromTime t); m = nat (MonthFromTime t + 1); d = nat (DateFromTime t);
          h = nat (HourFromTime t); i = nat (MinFromTime t); s = nat (SecFromTime t) in
      [digitChar (y div 1000), digitChar (y div 100 mod 10), digitChar (y div 10 mod 10),
       digitChar (y mod 10), digitChar (m div 10), digitChar (m mod 10),
       digitChar (d div 10), digitChar (d mod 10)]
      @ ''_'' @ [digitChar (h div 10), digitChar (h mod 10), digitChar (i div 10),
       digitChar (i mod 10), digitChar (s div 10), digitChar (s mod 10)])"
proof -
  have y: "numberToString (YearFromTime t) =
      [digitChar (nat (YearFromTime t) div 1000), digitChar (nat (YearFromTime t) div 100 mod 10),
       digitChar (nat (YearFromTime t) div 10 mod 10), digitChar (nat (YearFromTime t) mod 10)]"
    using assms by (simp add: numberToString_def natString_4)
  have m: "0 \<le> MonthFromTime t + 1" "MonthFromTime t + 1 < 100"
    using MonthFromTime_range [of t] by simp_all
  have d: "0 \<le> DateFromTime t" "DateFromTime t < 100"
    using DateFromTime_range [of t] by simp_all
  have h: "0 \<le> HourFromTime t" "HourFromTime t < 100"
    using HourFromTime_range [of t] by simp_all
  have i: "0 \<le> MinFromTime t" "MinFromTime t < 100"
    using MinFromTime_range [of t] by simp_all
  have s: "0 \<le> SecFromTime t" "SecFromTime t < 100"
    using SecFromTime_range [of t] by simp_all
  show ?thesis
    unfolding formatBackupTimestamp_def Let_def getUTCFullYear_def getUTCMonth_def
      getUTCDate_def getUTCHours_def getUTCMinutes_def getUTCSeconds_def
    by (simp only: y pad2_digits [OF m] pad2_digits [OF d] pad2_digits [OF h]
        pad2_digits [OF i] pad2_digits [OF s]) simp
qed

lemma year_range_time:
  assumes "1000 \<le> YearFromTime t" "YearFromTime t \<le> 9999"
  shows "\<bar>t - msFromTime t\<bar> \<le> 8640000000000000"
proof -
  note b = YearFromTime_bounds [of t]
  have "DayFromYear 1000 \<le> DayFromYear (YearFromTime t)"
    using assms by (intro DayFromYear_mono) simp
  moreover have "DayFromYear (YearFromTime t + 1) \<le> DayFromYear 10000"
    using assms by (intro DayFromYear_mono) simp
  moreover have "DayFromYear 1000 = - 354285" "DayFromYear 10000 = 2932897"
    by (simp_all add: DayFromYear_def)
  ultimately have d: "- 354285 \<le> Day t" "Day t < 2932897" using b by simp_all
  have m: "0 \<le> msFromTime t" "msFromTime t < 1000"
    by (simp_all add: msFromTime_def msPerSecond_def)
  have w: "0 \<le> TimeWithinDay t" "TimeWithinDay t < 86400000"
    by (simp_all add: TimeWithinDay_def msPerDay_def)
  have "t = Day t * 86400000 + TimeWithinDay t"
    using Day_TimeWithinDay [of t] by (simp add: msPerDay_def)
  with d m w show ?thesis by linarith
qed

lemma decode_generated:
  assumes "1000 \<le> YearFromTime t" "YearFromTime t \<le> 9999"
  shows "decodeBackupDataset (generateBackupDatasetName src t) =
           Some \<lparr>backupDatasetId = generateBackupDatasetName src t, sourceDatasetId = src,
                 timestamp = t - msFromTime t\<rparr>"
proof -
  define y where "y = nat (YearFromTime t)"
  define m where "m = nat (MonthFromTime t + 1)"
  define d where "d = nat (DateFromTime t)"
  define h where "h = nat (HourFromTime t)"
  define i where "i = nat (MinFromTime t)"
  define s where "s = nat (SecFromTime t)"
  have name: "generateBackupDatasetName src t =
      BACKUP_DATASET_PREFIX @
      [digitChar (y div 1000), digitChar (y div 100 mod 10), digitChar (y div 10 mod 10),
       digitChar (y mod 10), digitChar (m div 10), digitChar (m mod 10),
       digitChar (d div 10), digitChar (d mod 10)]
      @ ''_'' @ [digitChar (h div 10), digitChar (h mod 10), digitChar (i div 10),
       digitChar (i mod 10), digitChar (s div 10), digitChar (s mod 10)] @ ''_'' @ src"
    unfolding generateBackupDatasetName_def formatBackupTimestamp_digits [OF assms] Let_def
      y_def m_def d_def h_def i_def s_def by simp
  have r: "y < 10000" "m < 100" "d < 100" "h < 100" "i < 100" "s < 100"
    using assms MonthFromTime_range [of t] DateFromTime_range [of t] HourFromTime_range [of t]
      MinFromTime_range [of t] SecFromTime_range [of t]
    unfolding y_def m_def d_def h_def i_def s_def by linarith+
  have lt: "y div 1000 < 10" "y div 100 mod 10 < 10" "y div 10 mod 10 < 10" "y mod 10 < 10"
    "m div 10 < 10" "m mod 10 < 10" "d div 10 < 10" "d mod 10 < 10" "h div 10 < 10" "h mod 10 < 10"
    "i div 10 < 10" "i mod 10 < 10" "s div 10 < 10" "s mod 10 < 10"
    using r by simp_all
  have v: "int (1000 * (y div 1000) + 100 * (y div 100 mod 10) + 10 * (y div 10 mod 10) + y mod 10)
             = YearFromTime t"
    "int (10 * (m div 10) + m mod 10) - 1 = MonthFromTime t"
    "int (10 * (d div 10) + d mod 10) = DateFromTime t"
    "int (10 * (h div 10) + h mod 10) = HourFromTime t"
    "int (10 * (i div 10) + i mod 10) = MinFromTime t"
    "int (10 * (s div 10) + s mod 10) = SecFromTime t"
    using assms MonthFromTime_range [of t] DateFromTime_range [of t] HourFromTime_range [of t]
      MinFromTime_range [of t] SecFromTime_range [of t]
    unfolding digits4 digits2 y_def m_def d_def h_def i_def s_def by linarith+
  have utc: "Date_UTC (Some (YearFromTime t)) (Some (MonthFromTime t)) (Some (DateFromTime t))
      (Some (HourFromTime t)) (Some (MinFromTime t)) (Some (SecFromTime t)) = Some (t - msFromTime t)"
    using assms year_range_time [OF assms]
    by (simp add: Date_UTC_def MakeDate_fields TimeClip_def)
  show ?thesis
    unfolding name decode_digits [OF lt] v utc by simp
qed

section \<open>The codec as a round trip\<close>

text \<open>
  C1 (as the code has it). For every source id and every instant whose UTC year has four
  digits (1000 to 9999), the name made by \<^verbatim>\<open>generateBackupDatasetName\<close> is decoded
  by the enumeration to that source id and to the instant cut to whole seconds: the
  name holds no milliseconds. So an instant on a whole second comes back exactly.
\<close>

theorem decode_generateBackupDatasetName:
  assumes "1000 \<le> getUTCFullYear t" and "getUTCFullYear t \<le> 9999"
  shows "decodeBackupDataset (generateBackupDatasetName src t) =
           Some \<lparr>backupDatasetId = generateBackupDatasetName src t, sourceDatasetId = src,
                 timestamp = t - msFromTime t\<rparr>
         \<and> (msFromTime t = 0 \<longrightarrow>
              decodeBackupDataset (generateBackupDatasetName src t) =
                Some \<lparr>backupDatasetId = generateBackupDatasetName src t, sourceDatasetId = src,
                      timestamp = t\<rparr>)"
  using decode_generated [of t src] assms by (simp add: getUTCFullYear_def)

text \<open>
  The scenario of the specification: 2024-12-15T14:30:22Z (1734273022000 ms) and the source
  \<^verbatim>\<open>analytics\<close> give \<^verbatim>\<open>zzz_backup_20241215_143022_analytics\<close>, which decodes
  to the same source and instant.
\<close>

theorem decode_generateBackupDatasetName_witness:
  "1000 \<le> getUTCFullYear 1734273022000 \<and> getUTCFullYear 1734273022000 \<le> 9999
   \<and> msFromTime 1734273022000 = 0
   \<and> generateBackupDatasetName ''analytics'' 1734273022000 = ''zzz_backup_20241215_143022_analytics''
   \<and> decodeBackupDataset ''zzz_backup_20241215_143022_analytics'' =
         Some \<lparr>backupDatasetId = ''zzz_backup_20241215_143022_analytics'',
               sourceDatasetId = ''analytics'', timestamp = 1734273022000\<rparr>"
proof -
  have y: "getUTCFullYear 1734273022000 = 2024" by code_simp
  have m: "msFromTime 1734273022000 = 0" by (simp add: msFromTime_def msPerSecond_def)
  have n: "generateBackupDatasetName ''analytics'' 1734273022000 = ''zzz_backup_20241215_143022_analytics''"
    by code_simp
  show ?thesis
    using decode_generateBackupDatasetName [of 1734273022000 "''analytics''"] y m n by simp
qed

text \<open>
  C1 as the specification words it fails for an instant with milliseconds, such as
  2024-12-15T14:30:22.500Z: the decoded instant is 14:30:22.000, not the original.
\<close>

theorem decode_generateBackupDatasetName_milliseconds:
  "decodeBackupDataset (generateBackupDatasetName ''analytics'' 1734273022500) =
     Some \<lparr>backupDatasetId = ''zzz_backup_20241215_143022_analytics'',
           sourceDatasetId = ''analytics'', timestamp = 1734273022000\<rparr>
   \<and> decodeBackupDataset (generateBackupDatasetName ''analytics'' 1734273022500) \<noteq>
     Some \<lparr>backupDatasetId = generateBackupDatasetName ''analytics'' 1734273022500,
           sourceDatasetId = ''analytics'', timestamp = 1734273022500\<rparr>"
proof -
  have "decodeBackupDataset (generateBackupDatasetName ''analytics'' 1734273022500) =
     Some \<lparr>backupDatasetId = ''zzz_backup_20241215_143022_analytics'',
           sourceDatasetId = ''analytics'', timestamp = 1734273022000\<rparr>"
    by code_simp
  then show ?thesis by simp
qed

text \<open>
  C2. The enumeration does not reject every name whose digits are no calendar date or
  time. \<^verbatim>\<open>Date.UTC\<close> carries a day past the end of the month into the next month,
  and \<^verbatim>\<open>parseInt\<close> stops at the first character that is no digit. The name with
  the date 2024-02-30 is listed as a backup of 2024-03-01T12:00:00Z, an instant whose own
  name is a different one, and the name with the date \<^verbatim>\<open>2024121x\<close> is listed as a
  backup of 2024-12-01T12:00:00Z.
\<close>

theorem decodeBackupDataset_accepts_invalid_date:
  "decodeBackupDataset ''zzz_backup_20240230_120000_x'' =
     Some \<lparr>backupDatasetId = ''zzz_backup_20240230_120000_x'', sourceDatasetId = ''x'',
           timestamp = 1709294400000\<rparr>
   \<and> formatBackupTimestamp 1709294400000 = ''20240301_120000''
   \<and> decodeBackupDataset ''zzz_backup_2024121x_120000_x'' =
     Some \<lparr>backupDatasetId = ''zzz_backup_2024121x_120000_x'', sourceDatasetId = ''x'',
           timestamp = 1733054400000\<rparr>
   \<and> formatBackupTimestamp 1733054400000 = ''20241201_120000''"
  by code_simp

text \<open>Neither name is skipped.\<close>

theorem decodeBackupDataset_accepts_invalid_date_witness:
  "decodeBackupDataset ''zzz_backup_20240230_120000_x'' \<noteq> None
   \<and> decodeBackupDataset ''zzz_backup_2024121x_120000_x'' \<noteq> None"
  using decodeBackupDataset_accepts_invalid_date by simp

section \<open>Retention: the expiration of a snapshot\<close>

text \<open>
  C9 (as the code has it). \<^verbatim>\<open>calculateExpirationTimestamp(instant, 0)\<close> is
  \<^verbatim>\<open>undefined\<close>: the snapshot never expires. For \<open>n > 0\<close> the result is the
  instant moved by \<open>n\<close> UTC calendar days, that is \<open>n\<close> times 86 400 000 ms later with
  the time of day unchanged, as long as that instant is one a Date can hold (at most
  8.64e15 ms from the epoch); beyond that range the result is an invalid Date.
\<close>

theorem calculateExpirationTimestamp_days:
  "calculateExpirationTimestamp t (Some 0) = None \<and>
   (0 < n \<longrightarrow>
      calculateExpirationTimestamp t (Some n) =
        Some (if \<bar>t + n * msPerDay\<bar> \<le> 8640000000000000 then Some (t + n * msPerDay) else None)
      \<and> Day (t + n * msPerDay) = Day t + n
      \<and> TimeWithinDay (t + n * msPerDay) = TimeWithinDay t)"
proof -
  have "Day (t + n * msPerDay) = Day t + n"
    by (simp add: Day_def msPerDay_def)
  moreover have "TimeWithinDay (t + n * msPerDay) = TimeWithinDay t"
    by (simp add: TimeWithinDay_def)
  ultimately show ?thesis
    by (auto simp: calculateExpirationTimestamp_def setUTCDate_shift TimeClip_def)
qed

text \<open>
  The leap day 2024-02-29T10:00:00Z kept for 366 days expires on 2025-03-01T10:00:00Z.
\<close>

theorem calculateExpirationTimestamp_days_witness:
  "(0 :: int) < 366 \<and>
   calculateExpirationTimestamp 1709200800000 (Some 366) = Some (Some 1740823200000)"
  using calculateExpirationTimestamp_days [of 1709200800000 366]
  by (simp add: msPerDay_def)

text \<open>
  C9 as the specification words it, for every \<open>n > 0\<close>, fails where the sum leaves the
  range of Date: 100 000 001 days after the epoch there is no expiration instant,
  the function returns an invalid Date.
\<close>

theorem calculateExpirationTimestamp_out_of_range:
  "calculateExpirationTimestamp 0 (Some 100000001) = Some None
   \<and> calculateExpirationTimestamp 0 (Some 100000001) \<noteq> Some (Some (0 + 100000001 * msPerDay))"
  by (simp add: calculateExpirationTimestamp_def setUTCDate_shift TimeClip_def msPerDay_def)


section \<open>Restore: which containers belong to an instant\<close>

text \<open>
  C3. \<^verbatim>\<open>listBackupsForTimestamp\<close> keeps every dataset with the backup prefix whose
  name contains the formatted instant anywhere (\<^verbatim>\<open>includes\<close>). The backup taken on
  2024-01-01T00:00:00Z of the source \<^verbatim>\<open>sales_20241215_143022\<close> is therefore in the
  set resolved for 2024-12-15T14:30:22Z, although the enumeration decodes its instant as
  2024-01-01T00:00:00Z (1704067200000 ms).
\<close>

theorem listBackupsForTimestamp_substring:
  "listBackupsForTimestamp [''zzz_backup_20240101_000000_sales_20241215_143022''] 1734273022000 =
     [\<lparr>backupDatasetId = ''zzz_backup_20240101_000000_sales_20241215_143022'',
       sourceDatasetId = ''sales_20241215_143022'', timestamp = 1734273022000\<rparr>]
   \<and> decodeBackupDataset ''zzz_backup_20240101_000000_sales_20241215_143022'' =
     Some \<lparr>backupDatasetId = ''zzz_backup_20240101_000000_sales_20241215_143022'',
           sourceDatasetId = ''sales_20241215_143022'', timestamp = 1704067200000\<rparr>"
  by code_simp

text \<open>The set resolved for the instant holds a container that decodes to another instant.\<close>

theorem listBackupsForTimestamp_substring_witness:
  "map BackupInfo.backupDatasetId
     (listBackupsForTimestamp [''zzz_backup_20240101_000000_sales_20241215_143022''] 1734273022000)
     = [''zzz_backup_20240101_000000_sales_20241215_143022'']
   \<and> map_option BackupInfo.timestamp
         (decodeBackupDataset ''zzz_backup_20240101_000000_sales_20241215_143022'')
       \<noteq> Some 1734273022000"
  using listBackupsForTimestamp_substring by simp


section \<open>Backup: the datasets named by the caller\<close>

lemma listSpecificDatasets_ok:
  "\<forall>i \<in> set ids. fails env (DatasetExists i) = None
       \<and> (datasetOf w i \<noteq> None \<longrightarrow> fails env (DatasetGetMetadata i) = None) \<Longrightarrow>
   listSpecificDatasets env w ids =
     Inr (map (\<lambda>i. \<lparr>datasetId = i, location = metaLocation (the (datasetOf w i)), tables = []\<rparr>)
            (filter (\<lambda>i. datasetOf w i \<noteq> None) ids))"
  by (induction ids) (auto split: option.splits)

lemma listSpecificDatasets_raises:
  "\<exists>i \<in> set ids. fails env (DatasetExists i) \<noteq> None
       \<or> (datasetOf w i \<noteq> None \<and> fails env (DatasetGetMetadata i) \<noteq> None) \<Longrightarrow>
   \<exists>e. listSpecificDatasets env w ids = Inl e"
proof (induction ids)
  case Nil
  then show ?case by simp
next
  case (Cons a ids)
  show ?case
  proof (cases "fails env (DatasetExists a) \<noteq> None
       \<or> (datasetOf w a \<noteq> None \<and> fails env (DatasetGetMetadata a) \<noteq> None)")
    case True
    then show ?thesis by (auto split: option.splits)
  next
    case False
    with Cons.prems have "\<exists>i \<in> set ids. fails env (DatasetExists i) \<noteq> None
       \<or> (datasetOf w i \<noteq> None \<and> fails env (DatasetGetMetadata i) \<noteq> None)" by auto
    from Cons.IH [OF this] obtain e where "listSpecificDatasets env w ids = Inl e" ..
    with False show ?thesis by (auto split: option.splits)
  qed
qed


text \<open>
  C4 (as the code has it). With a list of ids, \<^verbatim>\<open>listDatasets\<close> returns the named
  datasets that exist, in the order of the list, and passes over a name that does not
  exist. The call fails exactly when a request throws: the existence check of a name, or
  the metadata read of a dataset that exists.
\<close>

theorem listDatasets_explicit_ids:
  assumes "ids \<noteq> []"
  shows "(if \<exists>i \<in> set ids. fails env (DatasetExists i) \<noteq> None
              \<or> (datasetOf w i \<noteq> None \<and> fails env (DatasetGetMetadata i) \<noteq> None)
          then \<exists>e. listDatasets env w (Some ids) = Inl e
          else listDatasets env w (Some ids) =
                 Inr (map (\<lambda>i. \<lparr>datasetId = i, location = metaLocation (the (datasetOf w i)),
                                 tables = []\<rparr>)
                        (filter (\<lambda>i. datasetOf w i \<noteq> None) ids)))"
proof (cases "\<exists>i \<in> set ids. fails env (DatasetExists i) \<noteq> None
              \<or> (datasetOf w i \<noteq> None \<and> fails env (DatasetGetMetadata i) \<noteq> None)")
  case True
  then show ?thesis
    using listSpecificDatasets_raises [of ids env w] assms by (simp add: listDatasets_def)
next
  case False
  then have "\<forall>i \<in> set ids. fails env (DatasetExists i) = None
       \<and> (datasetOf w i \<noteq> None \<longrightarrow> fails env (DatasetGetMetadata i) = None)" by auto
  from listSpecificDatasets_ok [OF this] False assms show ?thesis
    by (simp add: listDatasets_def)
qed


theorem listDatasets_explicit_ids_witness:
  "[''sales'', ''missing''] \<noteq> []
   \<and> listDatasets \<lparr>bqProjectId = ''p'', fails = (\<lambda>c. None), now = 0\<rparr>
     \<lparr>bqDatasets = [(''sales'', \<lparr>metaLocation = Some ''EU'', tableList = []\<rparr>)], bqLog = []\<rparr>
     (Some [''sales'', ''missing''])
   = Inr [\<lparr>datasetId = ''sales'', location = Some ''EU'', tables = []\<rparr>]"
  using listDatasets_explicit_ids [of "[''sales'', ''missing'']"
     "\<lparr>bqProjectId = ''p'', fails = (\<lambda>c. None), now = 0\<rparr>"
     "\<lparr>bqDatasets = [(''sales'', \<lparr>metaLocation = Some ''EU'', tableList = []\<rparr>)], bqLog = []\<rparr>"]
  by (simp add: datasetOf_def)


text \<open>
  C4 as the specification words it fails: with \<^verbatim>\<open>sales\<close> present and
  \<^verbatim>\<open>missing\<close> absent the call does not fail, it lists \<^verbatim>\<open>sales\<close>.
\<close>

theorem listDatasets_missing_is_skipped:
  "listDatasets \<lparr>bqProjectId = ''p'', fails = (\<lambda>c. None), now = 0\<rparr>
     \<lparr>bqDatasets = [(''sales'', \<lparr>metaLocation = Some ''EU'', tableList = []\<rparr>)], bqLog = []\<rparr>
     (Some [''sales'', ''missing''])
   = Inr [\<lparr>datasetId = ''sales'', location = Some ''EU'', tables = []\<rparr>]"
  by (simp add: listDatasets_def datasetOf_def)


section \<open>Backup: the window of a caller-supplied instant\<close>

text \<open>
  C8. When the caller supplies an instant that is after the time of the call or more
  than seven days before it, \<^verbatim>\<open>backupDataset\<close> throws the validation error and the
  warehouse is as it was: no dataset was created and nothing was logged. An instant from
  seven days before the call up to the call passes the validation. The instant and the
  clock are time values of valid Dates.
\<close>

theorem backupDataset_window:
  assumes "validTime t" and "validTime (now env)" and "BackupOptions.timestamp options = Some t"
  shows "(now env < t \<or> t < now env - 7 * msPerDay \<longrightarrow>
            backupDataset env w options = (Inl ''Error: Invalid timestamp for time travel'', w))
         \<and> (now env - 7 * msPerDay \<le> t \<and> t \<le> now env \<longrightarrow>
              validateTimeTravelTimestamp t (now env))"
  using assms
  by (auto simp: backupDataset_def validateTimeTravelTimestamp_def TimeClip_def validTime_def
      msPerDay_def Let_def split: option.splits if_splits)

theorem backupDataset_window_witness:
  "validTime 1734273023000 \<and> validTime (now exampleEnv)
   \<and> now exampleEnv < 1734273023000
   \<and> backupDataset exampleEnv exampleWorld
        \<lparr>projectId = ''acme'', datasets = None, timestamp = Some 1734273023000,
         expirationDays = None\<rparr>
      = (Inl ''Error: Invalid timestamp for time travel'', exampleWorld)
   \<and> now exampleEnv - 7 * msPerDay \<le> 1734273022000 - 7 * msPerDay
   \<and> validateTimeTravelTimestamp (1734273022000 - 7 * msPerDay) (now exampleEnv)"
  using backupDataset_window [of 1734273023000 exampleEnv
      "\<lparr>projectId = ''acme'', datasets = None, timestamp = Some 1734273023000,
         expirationDays = None\<rparr>" exampleWorld]
    backupDataset_window [of "1734273022000 - 7 * msPerDay" exampleEnv
      "\<lparr>projectId = ''acme'', datasets = None, timestamp = Some (1734273022000 - 7 * msPerDay),
         expirationDays = None\<rparr>" exampleWorld]
  by (simp add: validTime_def exampleEnv_def msPerDay_def)


section \<open>Backup: the default retention\<close>

lemma appends_refl: "appends ts exp w w"
  by (simp add: appends_def snapshotsWith_def)

lemma appends_trans: "appends ts exp w w1 \<Longrightarrow> appends ts exp w1 w2 \<Longrightarrow> appends ts exp w w2"
  by (auto simp: appends_def snapshotsWith_def)

lemma bqLog_mapDataset [simp]: "bqLog (mapDataset d f w) = bqLog w"
  by (simp add: mapDataset_def)

lemma createTableSnapshot_appends:
  "createTableSnapshot env w s st b bt ts exp dr = (r, w') \<Longrightarrow> appends ts exp w w'"
  by (auto simp: createTableSnapshot_def appends_def snapshotsWith_def logged_def
      bqLog_mapDataset split: if_splits option.splits)

lemma snapshotTables_appends:
  "snapshotTables env s b ts exp tbls w = (rs, w') \<Longrightarrow> appends ts exp w w'"
proof (induction tbls arbitrary: w rs w')
  case Nil
  then show ?case by (simp add: appends_refl)
next
  case (Cons t tbls)
  obtain r w1 where a: "createTableSnapshot env w s (tableId t) b (tableId t) ts exp False = (r, w1)"
    by (cases "createTableSnapshot env w s (tableId t) b (tableId t) ts exp False")
  obtain rs1 w2 where b: "snapshotTables env s b ts exp tbls w1 = (rs1, w2)"
    by (cases "snapshotTables env s b ts exp tbls w1")
  from Cons.prems a b have "w' = w2" by simp
  with createTableSnapshot_appends [OF a] Cons.IH [OF b] show ?case
    by (auto intro: appends_trans)
qed

lemma createBackupDataset_appends:
  "createBackupDataset env w b loc dr = (r, w') \<Longrightarrow> appends ts exp w w'"
  by (auto simp: createBackupDataset_def appends_def snapshotsWith_def logged_def
      split: if_splits option.splits)

lemma backupOneDataset_appends:
  assumes "backupOneDataset env ts exp w info = (r, w')"
  shows "appends ts exp w w'"
proof (cases "listTables env w (datasetId info)")
  case (Inl e)
  with assms show ?thesis by (simp add: backupOneDataset_def Let_def appends_refl)
next
  case (Inr tbls)
  show ?thesis
  proof (cases "length tbls = 0 \<or> (case location info of None \<Rightarrow> True | Some l \<Rightarrow> l = [])")
    case True
    with assms Inr have "w' = w"
      by (auto simp: backupOneDataset_def Let_def split: if_splits)
    then show ?thesis by (simp add: appends_refl)
  next
    case False
    let ?b = "generateBackupDatasetName (datasetId info) ts"
    obtain c w1 where c: "createBackupDataset env w ?b (the (location info)) False = (c, w1)"
      by (cases "createBackupDataset env w ?b (the (location info)) False")
    obtain rs w2 where s: "snapshotTables env (datasetId info) ?b ts exp tbls w1 = (rs, w2)"
      by (cases "snapshotTables env (datasetId info) ?b ts exp tbls w1")
    from assms Inr False c s have "w' = w1 \<or> w' = w2"
      by (auto simp: backupOneDataset_def Let_def split: sum.splits if_splits)
    with createBackupDataset_appends [OF c, of ts exp] snapshotTables_appends [OF s]
    show ?thesis by (auto intro: appends_trans)
  qed
qed

lemma backupEach_appends:
  "backupEach env ts exp infos w = (rs, w') \<Longrightarrow> appends ts exp w w'"
proof (induction infos arbitrary: w rs w')
  case Nil
  then show ?case by (simp add: appends_refl)
next
  case (Cons i infos)
  obtain r w1 where a: "backupOneDataset env ts exp w i = (r, w1)"
    by (cases "backupOneDataset env ts exp w i")
  obtain rs1 w2 where b: "backupEach env ts exp infos w1 = (rs1, w2)"
    by (cases "backupEach env ts exp infos w1")
  from Cons.prems a b have "w' = w2" by simp
  with backupOneDataset_appends [OF a] Cons.IH [OF b] show ?case
    by (auto intro: appends_trans)
qed

lemma backupDataset_appends:
  "appends (case BackupOptions.timestamp options of Some t \<Rightarrow> t | None \<Rightarrow> now env)
     (calculateExpirationTimestamp
        (case BackupOptions.timestamp options of Some t \<Rightarrow> t | None \<Rightarrow> now env)
        (Some (case expirationDays options of Some n \<Rightarrow> n | None \<Rightarrow> DEFAULT_EXPIRATION_DAYS)))
     w (snd (backupDataset env w options))"
proof -
  let ?ts = "case BackupOptions.timestamp options of Some t \<Rightarrow> t | None \<Rightarrow> now env"
  let ?exp = "calculateExpirationTimestamp ?ts
        (Some (case expirationDays options of Some n \<Rightarrow> n | None \<Rightarrow> DEFAULT_EXPIRATION_DAYS))"
  show ?thesis
  proof (cases "listDatasets env w (datasets options)")
    case (Inl e)
    then show ?thesis by (simp add: backupDataset_def Let_def appends_refl)
  next
    case (Inr infos)
    obtain rs w1 where b: "backupEach env ?ts ?exp infos w = (rs, w1)"
      by (cases "backupEach env ?ts ?exp infos w")
    from backupEach_appends [OF b] Inr b show ?thesis
      by (simp add: backupDataset_def Let_def appends_refl)
  qed
qed

text \<open>
  C10. A call without \<^verbatim>\<open>expirationDays\<close> does what a call with 90 days does, and
  every snapshot it creates is taken as of the instant of the backup and expires 90 UTC
  calendar days (90 times 86 400 000 ms) after it; that is not the absent expiration that
  0 days give.
\<close>

theorem backupDataset_default_expiration:
  assumes "expirationDays options = None"
  shows "backupDataset env w options = backupDataset env w (options\<lparr>expirationDays := Some 90\<rparr>)
    \<and> (\<exists>created. bqLog (snd (backupDataset env w options)) = bqLog w @ created
         \<and> (\<forall>a b c d t e. CreatedSnapshot a b c d t e \<in> set created \<longrightarrow>
               t = (case BackupOptions.timestamp options of Some t \<Rightarrow> t | None \<Rightarrow> now env)
               \<and> e = Some (Some (t + 90 * msPerDay))
               \<and> e \<noteq> calculateExpirationTimestamp t (Some 0)))"
proof -
  let ?ts = "case BackupOptions.timestamp options of Some t \<Rightarrow> t | None \<Rightarrow> now env"
  have eq: "backupDataset env w options = backupDataset env w (options\<lparr>expirationDays := Some 90\<rparr>)"
    using assms by (simp add: backupDataset_def DEFAULT_EXPIRATION_DAYS_def Let_def)
  have e90: "calculateExpirationTimestamp ?ts (Some 90) = Some (TimeClip (?ts + 90 * msPerDay))"
    by (simp add: calculateExpirationTimestamp_def setUTCDate_shift)
  show ?thesis
  proof (cases "TimeClip (?ts + 90 * msPerDay)")
    case None
    then have "snd (backupDataset env w options) = w"
      using assms e90 by (simp add: backupDataset_def Let_def DEFAULT_EXPIRATION_DAYS_def)
    then show ?thesis using eq by simp
  next
    case (Some x)
    then have x: "x = ?ts + 90 * msPerDay" by (simp add: TimeClip_def split: if_splits)
    from backupDataset_appends [where options = options and env = env and w = w] assms e90 Some x
    have "appends ?ts (Some (Some (?ts + 90 * msPerDay))) w (snd (backupDataset env w options))"
      by (simp add: DEFAULT_EXPIRATION_DAYS_def)
    then obtain new where n: "bqLog (snd (backupDataset env w options)) = bqLog w @ new"
      "snapshotsWith ?ts (Some (Some (?ts + 90 * msPerDay))) new"
      unfolding appends_def by blast
    have "\<forall>a b c d t e. CreatedSnapshot a b c d t e \<in> set new \<longrightarrow>
               t = ?ts \<and> e = Some (Some (t + 90 * msPerDay))
               \<and> e \<noteq> calculateExpirationTimestamp t (Some 0)"
    proof (intro allI impI)
      fix a b c d t e
      assume "CreatedSnapshot a b c d t e \<in> set new"
      with n(2) have "t = ?ts" "e = Some (Some (?ts + 90 * msPerDay))"
        unfolding snapshotsWith_def by blast+
      then show "t = ?ts \<and> e = Some (Some (t + 90 * msPerDay))
               \<and> e \<noteq> calculateExpirationTimestamp t (Some 0)"
        by (simp add: calculateExpirationTimestamp_def)
    qed
    with n(1) eq show ?thesis by blast
  qed
qed

theorem backupDataset_default_expiration_witness:
  "expirationDays \<lparr>projectId = ''acme'', datasets = None, timestamp = None,
         expirationDays = None\<rparr> = None
   \<and> bqLog (snd (backupDataset exampleEnv exampleWorld
        \<lparr>projectId = ''acme'', datasets = None, timestamp = None, expirationDays = None\<rparr>))
      = bqLog exampleWorld @
        [CreatedDataset ''zzz_backup_20241215_143022_sales'' ''EU'',
         CreatedSnapshot ''sales'' ''orders'' ''zzz_backup_20241215_143022_sales'' ''orders''
           1734273022000 (Some (Some 1742049022000))]
   \<and> (1742049022000 :: int) = 1734273022000 + 90 * msPerDay
   \<and> backupDataset exampleEnv exampleWorld
        \<lparr>projectId = ''acme'', datasets = None, timestamp = None, expirationDays = None\<rparr>
     = backupDataset exampleEnv exampleWorld
        \<lparr>projectId = ''acme'', datasets = None, timestamp = None, expirationDays = Some 90\<rparr>"
proof -
  have ev: "bqLog (snd (backupDataset exampleEnv exampleWorld
        \<lparr>projectId = ''acme'', datasets = None, timestamp = None, expirationDays = None\<rparr>))
      = [CreatedDataset ''zzz_backup_20241215_143022_sales'' ''EU'',
         CreatedSnapshot ''sales'' ''orders'' ''zzz_backup_20241215_143022_sales'' ''orders''
           1734273022000 (Some (Some 1742049022000))]"
    by code_simp
  have l: "bqLog exampleWorld = []" by (simp add: exampleWorld_def)
  show ?thesis
    using backupDataset_default_expiration [of
        "\<lparr>projectId = ''acme'', datasets = None, timestamp = None, expirationDays = None\<rparr>"
        exampleEnv exampleWorld] ev l
    by (simp add: msPerDay_def)
qed


section \<open>Backup: a snapshot that fails\<close>

lemma fst_snapshotTables:
  "fst (snapshotTables env s b ts exp tbls w) = map (snapshotOutcome env s b) tbls"
proof (induction tbls arbitrary: w)
  case Nil
  show ?case by simp
next
  case (Cons t tbls)
  obtain r w1 where a: "createTableSnapshot env w s (tableId t) b (tableId t) ts exp False = (r, w1)"
    by (cases "createTableSnapshot env w s (tableId t) b (tableId t) ts exp False")
  obtain rs w2 where c: "snapshotTables env s b ts exp tbls w1 = (rs, w2)"
    by (cases "snapshotTables env s b ts exp tbls w1")
  have "rs = map (snapshotOutcome env s b) tbls" using Cons.IH [of w1] c by simp
  moreover have "(case r of Inr u \<Rightarrow> Succeeded (tableId t)
       | Inl e \<Rightarrow> Failed (tableId t) (''Failed to create snapshot for '' @ tableId t @ '': '' @ e))
       = snapshotOutcome env s b t"
    using a by (auto simp: createTableSnapshot_def snapshotOutcome_def split: option.splits)
  ultimately show ?case using a c by simp
qed

lemma succeeded_snapshotOutcome:
  "succeeded (snapshotOutcome env s b t) = (fails env (SnapshotJob s (tableId t) b (tableId t)) = None)"
  by (simp add: snapshotOutcome_def split: option.splits)

lemma filter_snapshotOutcome:
  "length (filter succeeded (map (snapshotOutcome env s b) tbls)) =
     length (filter (\<lambda>t. fails env (SnapshotJob s (tableId t) b (tableId t)) = None) tbls)"
  "length (filter (\<lambda>r. \<not> succeeded r) (map (snapshotOutcome env s b) tbls)) =
     length (filter (\<lambda>t. fails env (SnapshotJob s (tableId t) b (tableId t)) \<noteq> None) tbls)"
  by (simp_all add: filter_map o_def succeeded_snapshotOutcome)

lemma datasetOf_logged [simp]: "datasetOf (logged m w) i = datasetOf w i"
  by (simp add: datasetOf_def logged_def)

lemma datasetOf_mapDataset_other: "i \<noteq> b \<Longrightarrow> datasetOf (mapDataset b f w) i = datasetOf w i"
proof -
  assume ne: "i \<noteq> b"
  have "map_of (map (\<lambda>(k, d). if k = b then (k, d\<lparr>tableList := f (tableList d)\<rparr>) else (k, d)) xs) i
        = map_of xs i" for xs
    using ne by (induction xs) auto
  then show ?thesis by (simp add: datasetOf_def mapDataset_def)
qed

lemma datasetOf_append_other:
  "i \<noteq> b \<Longrightarrow> datasetOf (w\<lparr>bqDatasets := bqDatasets w @ [(b, d)]\<rparr>) i = datasetOf w i"
  by (simp add: datasetOf_def map_add_def split: option.splits)

lemma createTableSnapshot_frame:
  "createTableSnapshot env w s st b bt ts exp dr = (r, w') \<Longrightarrow> i \<noteq> b \<Longrightarrow>
   datasetOf w' i = datasetOf w i"
  by (auto simp: createTableSnapshot_def datasetOf_mapDataset_other split: if_splits option.splits)

lemma snapshotTables_frame:
  "snapshotTables env s b ts exp tbls w = (rs, w') \<Longrightarrow> i \<noteq> b \<Longrightarrow> datasetOf w' i = datasetOf w i"
proof (induction tbls arbitrary: w rs w')
  case Nil
  then show ?case by simp
next
  case (Cons t tbls)
  obtain r w1 where a: "createTableSnapshot env w s (tableId t) b (tableId t) ts exp False = (r, w1)"
    by (cases "createTableSnapshot env w s (tableId t) b (tableId t) ts exp False")
  obtain rs1 w2 where c: "snapshotTables env s b ts exp tbls w1 = (rs1, w2)"
    by (cases "snapshotTables env s b ts exp tbls w1")
  from Cons.prems a c have "w' = w2" by simp
  with createTableSnapshot_frame [OF a Cons.prems(2)] Cons.IH [OF c Cons.prems(2)]
  show ?case by simp
qed

lemma createBackupDataset_frame:
  "createBackupDataset env w b loc dr = (r, w') \<Longrightarrow> i \<noteq> b \<Longrightarrow> datasetOf w' i = datasetOf w i"
  by (auto simp: createBackupDataset_def datasetOf_append_other split: if_splits option.splits)

lemma backupOneDataset_frame:
  assumes "backupOneDataset env ts exp w info = (r, w')"
    and "i \<noteq> generateBackupDatasetName (datasetId info) ts"
  shows "datasetOf w' i = datasetOf w i"
proof (cases "listTables env w (datasetId info)")
  case (Inl e)
  with assms show ?thesis by (simp add: backupOneDataset_def Let_def)
next
  case (Inr tbls)
  show ?thesis
  proof (cases "length tbls = 0 \<or> (case location info of None \<Rightarrow> True | Some l \<Rightarrow> l = [])")
    case True
    with assms Inr have "w' = w"
      by (auto simp: backupOneDataset_def Let_def split: if_splits)
    then show ?thesis by simp
  next
    case False
    let ?b = "generateBackupDatasetName (datasetId info) ts"
    obtain c w1 where c: "createBackupDataset env w ?b (the (location info)) False = (c, w1)"
      by (cases "createBackupDataset env w ?b (the (location info)) False")
    obtain rs w2 where s: "snapshotTables env (datasetId info) ?b ts exp tbls w1 = (rs, w2)"
      by (cases "snapshotTables env (datasetId info) ?b ts exp tbls w1")
    from assms Inr False c s have "w' = w1 \<or> w' = w2"
      by (auto simp: backupOneDataset_def Let_def split: sum.splits if_splits)
    with createBackupDataset_frame [OF c assms(2)] snapshotTables_frame [OF s assms(2)]
    show ?thesis by auto
  qed
qed

lemma listTables_cong:
  "datasetOf w1 i = datasetOf w i \<Longrightarrow> listTables env w1 i = listTables env w i"
  by (auto simp: listTables_def split: option.splits)

lemma fst_createBackupDataset_cong:
  "(datasetOf w1 b = None) = (datasetOf w b = None) \<Longrightarrow>
   fst (createBackupDataset env w1 b loc dr) = fst (createBackupDataset env w b loc dr)"
  by (auto simp: createBackupDataset_def split: option.splits)

text \<open>The report of one dataset in terms of what the loop body reads.\<close>

lemma fst_backupOneDataset:
  "fst (backupOneDataset env ts exp w info) =
     (let result = \<lparr>backupDatasetId' = [], sourceDatasetId = datasetId info,
                    timestamp = ts, tablesBackedUp = 0, success = False, errors = []\<rparr>;
          backupId = generateBackupDatasetName (datasetId info) ts
      in case listTables env w (datasetId info) of
           Inl e \<Rightarrow> result\<lparr>errors := [''Error backing up dataset '' @ datasetId info @ '': '' @ e]\<rparr>
         | Inr tbls \<Rightarrow>
             if tbls = [] then result\<lparr>success := True\<rparr>
             else if (case location info of None \<Rightarrow> True | Some l \<Rightarrow> l = [])
             then result\<lparr>backupDatasetId' := backupId,
                         errors := [''Error backing up dataset '' @ datasetId info @ '': ''
                           @ ''Error: Dataset '' @ datasetId info
                           @ '' does not have a location specified'']\<rparr>
             else
               (case fst (createBackupDataset env w backupId (the (location info)) False) of
                  Inl e \<Rightarrow> result\<lparr>backupDatasetId' := backupId,
                         errors := [''Error backing up dataset '' @ datasetId info @ '': '' @ e]\<rparr>
                | Inr u \<Rightarrow>
                    result\<lparr>backupDatasetId' := backupId,
                      tablesBackedUp :=
                        length (filter succeeded
                          (map (snapshotOutcome env (datasetId info) backupId) tbls)),
                      success :=
                        (filter (\<lambda>r. \<not> succeeded r)
                          (map (snapshotOutcome env (datasetId info) backupId) tbls) = []),
                      errors :=
                        map errorOf (filter (\<lambda>r. \<not> succeeded r)
                          (map (snapshotOutcome env (datasetId info) backupId) tbls))\<rparr>))"
proof (cases "listTables env w (datasetId info)")
  case (Inl e)
  then show ?thesis by (simp add: backupOneDataset_def Let_def)
next
  case (Inr tbls)
  let ?b = "generateBackupDatasetName (datasetId info) ts"
  obtain c w1 where c: "createBackupDataset env w ?b (the (location info)) False = (c, w1)"
    by (cases "createBackupDataset env w ?b (the (location info)) False")
  obtain rs w2 where s: "snapshotTables env (datasetId info) ?b ts exp tbls w1 = (rs, w2)"
    by (cases "snapshotTables env (datasetId info) ?b ts exp tbls w1")
  have rs: "rs = map (snapshotOutcome env (datasetId info) ?b) tbls"
    using fst_snapshotTables [of env "datasetId info" ?b ts exp tbls w1] s by simp
  show ?thesis
    using Inr c s rs
    by (cases c) (simp_all add: backupOneDataset_def Let_def)
qed

lemma fst_backupOneDataset_cong:
  assumes "datasetOf w1 (datasetId info) = datasetOf w (datasetId info)"
    and "(datasetOf w1 (generateBackupDatasetName (datasetId info) ts) = None)
       = (datasetOf w (generateBackupDatasetName (datasetId info) ts) = None)"
  shows "fst (backupOneDataset env ts exp w1 info) = fst (backupOneDataset env ts exp w info)"
proof -
  have a: "listTables env w1 (datasetId info) = listTables env w (datasetId info)"
    using assms(1) by (rule listTables_cong)
  have b: "fst (createBackupDataset env w1 (generateBackupDatasetName (datasetId info) ts)
                  (the (location info)) False)
         = fst (createBackupDataset env w (generateBackupDatasetName (datasetId info) ts)
                  (the (location info)) False)"
    using assms(2) by (rule fst_createBackupDataset_cong)
  show ?thesis unfolding fst_backupOneDataset Let_def a b ..
qed

lemma startsWith_generated:
  "startsWith (generateBackupDatasetName s ts) BACKUP_DATASET_PREFIX"
  by (simp add: startsWith_def generateBackupDatasetName_def)

lemma generateBackupDatasetName_inj:
  "generateBackupDatasetName a ts = generateBackupDatasetName b ts \<Longrightarrow> a = b"
  by (simp add: generateBackupDatasetName_def)

text \<open>
  Source datasets with different ids, none of them a backup container: each dataset of
  the call gets the report it would get if it were the only one.
\<close>

lemma backupEach_independent:
  assumes "distinct (map datasetId infos)"
    and "\<forall>i \<in> set infos. \<not> startsWith (datasetId i) BACKUP_DATASET_PREFIX"
    and "\<forall>i \<in> set infos. datasetOf w1 (datasetId i) = datasetOf w (datasetId i)
          \<and> datasetOf w1 (generateBackupDatasetName (datasetId i) ts)
            = datasetOf w (generateBackupDatasetName (datasetId i) ts)"
  shows "fst (backupEach env ts exp infos w1) = map (\<lambda>i. fst (backupOneDataset env ts exp w i)) infos"
  using assms
proof (induction infos arbitrary: w1)
  case Nil
  show ?case by simp
next
  case (Cons i infos)
  obtain r w2 where a: "backupOneDataset env ts exp w1 i = (r, w2)"
    by (cases "backupOneDataset env ts exp w1 i")
  obtain rs w3 where b: "backupEach env ts exp infos w2 = (rs, w3)"
    by (cases "backupEach env ts exp infos w2")
  have r: "r = fst (backupOneDataset env ts exp w i)"
    using fst_backupOneDataset_cong [of w1 i w ts env exp] Cons.prems(3) a by simp
  have "\<forall>j \<in> set infos. datasetOf w2 (datasetId j) = datasetOf w (datasetId j)
          \<and> datasetOf w2 (generateBackupDatasetName (datasetId j) ts)
            = datasetOf w (generateBackupDatasetName (datasetId j) ts)"
  proof
    fix j assume j: "j \<in> set infos"
    have "datasetId i \<notin> set (map datasetId infos)" using Cons.prems(1) by simp
    moreover have "datasetId j \<in> set (map datasetId infos)" using j by (simp only: set_map) (rule imageI)
    ultimately have ne: "datasetId j \<noteq> datasetId i" by metis
    have n1: "datasetId j \<noteq> generateBackupDatasetName (datasetId i) ts"
      using Cons.prems(2) j startsWith_generated [of "datasetId i" ts] by auto
    have n2: "generateBackupDatasetName (datasetId j) ts \<noteq> generateBackupDatasetName (datasetId i) ts"
      using ne generateBackupDatasetName_inj by blast
    show "datasetOf w2 (datasetId j) = datasetOf w (datasetId j)
          \<and> datasetOf w2 (generateBackupDatasetName (datasetId j) ts)
            = datasetOf w (generateBackupDatasetName (datasetId j) ts)"
      using backupOneDataset_frame [OF a n1] backupOneDataset_frame [OF a n2] Cons.prems(3) j
      by simp
  qed
  with Cons.IH [of w2] Cons.prems(1,2) b
  have "rs = map (\<lambda>i. fst (backupOneDataset env ts exp w i)) infos" by simp
  with r a b show ?case by simp
qed

text \<open>
  C5. In a backup call that returns, take a dataset with three tables of type TABLE, a
  location and no backup dataset in the way, where exactly one of the three snapshot jobs
  throws. Its result counts two tables backed up, holds one error message and has
  \<open>success = False\<close>. When the source datasets of the call have different ids and none
  is itself a backup dataset, every dataset of the call is reported, in order, with the
  result it would have if it were processed alone in the warehouse as the call found it:
  the failure touches no sibling.
\<close>

theorem backupDataset_partial_failure:
  assumes call: "backupDataset env w options = (Inr results, w')"
    and listed: "listDatasets env w (datasets options) = Inr infos"
    and sib: "distinct (map datasetId infos)"
      "\<forall>i \<in> set infos. \<not> startsWith (datasetId i) BACKUP_DATASET_PREFIX"
    and mem: "k < length infos" "infos ! k = info"
    and ts: "ts = (case BackupOptions.timestamp options of Some t \<Rightarrow> t | None \<Rightarrow> now env)"
    and exp: "exp = calculateExpirationTimestamp ts
        (Some (case expirationDays options of Some n \<Rightarrow> n | None \<Rightarrow> DEFAULT_EXPIRATION_DAYS))"
    and bk: "bk = generateBackupDatasetName (datasetId info) ts"
    and tables: "listTables env w (datasetId info) = Inr [t1, t2, t3]"
    and loc: "location info = Some loc" "loc \<noteq> []"
    and ready: "fails env (DatasetExists bk) = None" "datasetOf w bk = None"
      "fails env (DatasetCreate bk) = None"
    and one: "length (filter (\<lambda>t. fails env (SnapshotJob (datasetId info) (tableId t) bk (tableId t))
                                 \<noteq> None) [t1, t2, t3]) = 1"
  shows "length results = length infos
     \<and> tablesBackedUp (results ! k) = 2
     \<and> length (BackupResult.errors (results ! k)) = 1
     \<and> \<not> BackupResult.success (results ! k)
     \<and> (\<forall>j < length infos. results ! j = fst (backupOneDataset env ts exp w (infos ! j)))"
proof -
  have res: "results = fst (backupEach env ts exp infos w)"
    using call listed ts exp
    by (auto simp: backupDataset_def Let_def split: if_splits prod.splits)
  have ind: "results = map (\<lambda>i. fst (backupOneDataset env ts exp w i)) infos"
    unfolding res using sib by (intro backupEach_independent) simp_all
  let ?out = "map (snapshotOutcome env (datasetId info) bk) [t1, t2, t3]"
  have cb: "fst (createBackupDataset env w bk (the (location info)) False) = Inr ()"
    using ready by (simp add: createBackupDataset_def)
  have nf: "length (filter (\<lambda>r. \<not> succeeded r) ?out) = 1"
    using filter_snapshotOutcome(2) [of env "datasetId info" bk "[t1, t2, t3]"] one by simp
  have "length (filter succeeded ?out) + length (filter (\<lambda>r. \<not> succeeded r) ?out) = length ?out"
    by (rule sum_length_filter_compl)
  with nf have ns: "length (filter succeeded ?out) = 2" by simp
  have r: "fst (backupOneDataset env ts exp w info) =
      \<lparr>backupDatasetId' = bk, sourceDatasetId = datasetId info, timestamp = ts,
       tablesBackedUp = length (filter succeeded ?out),
       success = (filter (\<lambda>r. \<not> succeeded r) ?out = []),
       errors = map errorOf (filter (\<lambda>r. \<not> succeeded r) ?out)\<rparr>"
    unfolding fst_backupOneDataset Let_def tables bk [symmetric] cb
    using loc by simp
  have k: "results ! k = fst (backupOneDataset env ts exp w info)"
    using ind mem by simp
  have "tablesBackedUp (results ! k) = 2" unfolding k r using ns by simp
  moreover have "length (BackupResult.errors (results ! k)) = 1" unfolding k r using nf by simp
  moreover have "\<not> BackupResult.success (results ! k)"
  proof -
    have "filter (\<lambda>r. \<not> succeeded r) ?out \<noteq> []" using nf by (metis length_0_conv zero_neq_one)
    then show ?thesis unfolding k r by simp
  qed
  ultimately show ?thesis using ind by simp
qed

text \<open>
  In the second project the snapshot of \<^verbatim>\<open>items\<close> fails: \<^verbatim>\<open>sales\<close> is
  reported with two tables, one message and no success, \<^verbatim>\<open>hr\<close> as if it were alone.
\<close>

theorem backupDataset_partial_failure_witness:
  "fst (backupDataset quotaEnv twoDatasets
          \<lparr>projectId = ''acme'', datasets = None, timestamp = None, expirationDays = None\<rparr>)
     = Inr [\<lparr>backupDatasetId' = ''zzz_backup_20241215_143022_sales'', sourceDatasetId = ''sales'',
             timestamp = 1734273022000, tablesBackedUp = 2, success = False,
             errors = [''Failed to create snapshot for items: ApiError: Quota exceeded'']\<rparr>,
            \<lparr>backupDatasetId' = ''zzz_backup_20241215_143022_hr'', sourceDatasetId = ''hr'',
             timestamp = 1734273022000, tablesBackedUp = 1, success = True, errors = []\<rparr>]
   \<and> fst (backupOneDataset quotaEnv 1734273022000 (Some (Some 1742049022000)) twoDatasets
            \<lparr>datasetId = ''hr'', location = Some ''EU'', tables = []\<rparr>)
     = \<lparr>backupDatasetId' = ''zzz_backup_20241215_143022_hr'', sourceDatasetId = ''hr'',
             timestamp = 1734273022000, tablesBackedUp = 1, success = True, errors = []\<rparr>"
proof -
  let ?O = "\<lparr>projectId = ''acme'', datasets = None, timestamp = None, expirationDays = None\<rparr>"
  let ?R = "[\<lparr>backupDatasetId' = ''zzz_backup_20241215_143022_sales'', sourceDatasetId = ''sales'',
             timestamp = 1734273022000, tablesBackedUp = 2, success = False,
             errors = [''Failed to create snapshot for items: ApiError: Quota exceeded'']\<rparr>,
            \<lparr>backupDatasetId' = ''zzz_backup_20241215_143022_hr'', sourceDatasetId = ''hr'',
             timestamp = 1734273022000, tablesBackedUp = 1, success = True, errors = []\<rparr>]"
  let ?sales = "\<lparr>datasetId = ''sales'', location = Some ''EU'', tables = []\<rparr>"
  let ?hr = "\<lparr>datasetId = ''hr'', location = Some ''EU'', tables = []\<rparr>"
  have ev: "fst (backupDataset quotaEnv twoDatasets ?O) = Inr ?R"
    by code_simp
  then have call: "backupDataset quotaEnv twoDatasets ?O
      = (Inr ?R, snd (backupDataset quotaEnv twoDatasets ?O))"
    by (metis prod.collapse)
  have listed: "listDatasets quotaEnv twoDatasets (datasets ?O) = Inr [?sales, ?hr]"
    by code_simp
  have d: "distinct (map datasetId [?sales, ?hr])"
    "\<forall>i \<in> set [?sales, ?hr]. \<not> startsWith (datasetId i) BACKUP_DATASET_PREFIX"
    by (simp_all add: startsWith_def BACKUP_DATASET_PREFIX_def)
  have m: "0 < length [?sales, ?hr]" "[?sales, ?hr] ! 0 = ?sales" by simp_all
  have ts: "1734273022000 = (case BackupOptions.timestamp ?O of Some t \<Rightarrow> t | None \<Rightarrow> now quotaEnv)"
    by (simp add: quotaEnv_def)
  have exp: "Some (Some 1742049022000) = calculateExpirationTimestamp 1734273022000
        (Some (case expirationDays ?O of Some n \<Rightarrow> n | None \<Rightarrow> DEFAULT_EXPIRATION_DAYS))"
    by (simp add: DEFAULT_EXPIRATION_DAYS_def calculateExpirationTimestamp_def setUTCDate_shift
        TimeClip_def msPerDay_def)
  have bk: "''zzz_backup_20241215_143022_sales'' = generateBackupDatasetName (datasetId ?sales) 1734273022000"
    by code_simp
  have tbls: "listTables quotaEnv twoDatasets (datasetId ?sales) =
      Inr [\<lparr>tableId = ''orders'', tableType = ''TABLE''\<rparr>,
           \<lparr>tableId = ''items'', tableType = ''TABLE''\<rparr>,
           \<lparr>tableId = ''customers'', tableType = ''TABLE''\<rparr>]"
    by code_simp
  have l: "location ?sales = Some ''EU''" "''EU'' \<noteq> []" by simp_all
  have r: "fails quotaEnv (DatasetExists ''zzz_backup_20241215_143022_sales'') = None"
    "datasetOf twoDatasets ''zzz_backup_20241215_143022_sales'' = None"
    "fails quotaEnv (DatasetCreate ''zzz_backup_20241215_143022_sales'') = None"
    by (simp_all add: quotaEnv_def twoDatasets_def datasetOf_def)
  have one: "length (filter (\<lambda>t. fails quotaEnv (SnapshotJob (datasetId ?sales) (tableId t)
            ''zzz_backup_20241215_143022_sales'' (tableId t)) \<noteq> None)
        [\<lparr>tableId = ''orders'', tableType = ''TABLE''\<rparr>,
           \<lparr>tableId = ''items'', tableType = ''TABLE''\<rparr>,
           \<lparr>tableId = ''customers'', tableType = ''TABLE''\<rparr>]) = 1"
    by (simp add: quotaEnv_def)
  from backupDataset_partial_failure [OF call listed d m ts exp bk tbls l r one,
      THEN conjunct2, THEN conjunct2, THEN conjunct2, THEN conjunct2, rule_format, of 1]
  have "?R ! 1 = fst (backupOneDataset quotaEnv 1734273022000 (Some (Some 1742049022000))
                        twoDatasets ([?sales, ?hr] ! 1))"
    by simp
  with ev show ?thesis by simp
qed


section \<open>Restore: a target table that exists\<close>

lemma logGrows_refl: "logGrows w w"
  by (simp add: logGrows_def)

lemma logGrows_trans: "logGrows w w1 \<Longrightarrow> logGrows w1 w2 \<Longrightarrow> logGrows w w2"
  by (auto simp: logGrows_def)

lemma logGrows_mem: "logGrows w w' \<Longrightarrow> m \<in> set (bqLog w) \<Longrightarrow> m \<in> set (bqLog w')"
  by (auto simp: logGrows_def)

lemma map_of_mapped:
  "map_of (map (\<lambda>(k, d). if k = b then (k, g d) else (k, d)) xs) i
     = (if i = b then map_option g (map_of xs b) else map_of xs i)"
  by (induction xs) auto

lemma datasetOf_mapDataset:
  "datasetOf (mapDataset b f w) i =
     (if i = b then map_option (\<lambda>d. d\<lparr>tableList := f (tableList d)\<rparr>) (datasetOf w b)
      else datasetOf w i)"
  unfolding datasetOf_def mapDataset_def
  using map_of_mapped [of b "\<lambda>d. d\<lparr>tableList := f (tableList d)\<rparr>" "bqDatasets w" i] by simp

lemma find_putTable_other:
  "tableName t \<noteq> n \<Longrightarrow> find (\<lambda>u. tableName u = n) (putTable t us) = find (\<lambda>u. tableName u = n) us"
  by (induction us) auto

lemma tableOf_logged [simp]: "tableOf (logged m w) d t = tableOf w d t"
  by (simp add: tableOf_def datasetOf_def logged_def)

lemma tableOf_putTable_other:
  "n \<noteq> t \<Longrightarrow>
   tableOf (mapDataset d (putTable (plainTable t ty)) w) d' n = tableOf w d' n"
  by (auto simp: tableOf_def datasetOf_mapDataset plainTable_def find_putTable_other
      split: option.splits)

lemma restoreTable_frame:
  "restoreTable env w b t target t ow = (r, w') \<Longrightarrow> n \<noteq> t \<Longrightarrow>
   tableOf w' target n = tableOf w target n"
  by (auto simp: restoreTable_def Let_def tableOf_putTable_other split: option.splits if_splits)

lemma restoreTable_outcome:
  "(case fst (restoreTable env w b t target t ow) of
      Inr u \<Rightarrow> Succeeded t
    | Inl e \<Rightarrow> Failed t (''Failed to restore table '' @ t @ '': '' @ e))
   = restoreOutcome env w b target ow t"
  by (auto simp: restoreTable_def restoreOutcome_def Let_def split: option.splits)

lemma restoreTable_log:
  "restoreTable env w b t target t ow = (r, w') \<Longrightarrow>
   logGrows w w' \<and> (r = Inr () \<longrightarrow> ClonedTable b t target t ow \<in> set (bqLog w'))"
  by (auto simp: restoreTable_def Let_def logGrows_def logged_def split: option.splits if_splits)

lemma restoreOutcome_cong:
  "(tableOf w1 target t = None) = (tableOf w target t = None) \<Longrightarrow>
   restoreOutcome env w1 b target ow t = restoreOutcome env w b target ow t"
  by (cases "tableOf w target t"; cases "tableOf w1 target t") (simp_all add: restoreOutcome_def)

lemma restoreTables_outcomes:
  assumes "distinct ts"
    and "\<forall>t \<in> set ts. (tableOf w1 target t = None) = (tableOf w target t = None)"
  shows "fst (restoreTables env b target ow ts w1) = map (restoreOutcome env w b target ow) ts"
  using assms
proof (induction ts arbitrary: w1)
  case Nil
  show ?case by simp
next
  case (Cons t ts)
  obtain r w2 where a: "restoreTable env w1 b t target t ow = (r, w2)"
    by (cases "restoreTable env w1 b t target t ow")
  obtain rs w3 where c: "restoreTables env b target ow ts w2 = (rs, w3)"
    by (cases "restoreTables env b target ow ts w2")
  have "\<forall>n \<in> set ts. (tableOf w2 target n = None) = (tableOf w target n = None)"
  proof
    fix n assume n: "n \<in> set ts"
    with Cons.prems(1) have "n \<noteq> t" by auto
    from restoreTable_frame [OF a this] Cons.prems(2) n
    show "(tableOf w2 target n = None) = (tableOf w target n = None)" by simp
  qed
  with Cons.IH [of w2] Cons.prems(1) c
  have rs: "rs = map (restoreOutcome env w b target ow) ts" by simp
  have "(case r of Inr u \<Rightarrow> Succeeded t
          | Inl e \<Rightarrow> Failed t (''Failed to restore table '' @ t @ '': '' @ e))
        = restoreOutcome env w b target ow t"
    using restoreTable_outcome [where env = env and w = w1 and b = b and t = t
          and target = target and ow = ow] a
      restoreOutcome_cong [where ?w1.0 = w1 and target = target and t = t and w = w
          and env = env and b = b and ow = ow] Cons.prems(2) by simp
  with rs a c show ?case by simp
qed

lemma restoreTables_log:
  "restoreTables env b target ow ts w = (rs, w') \<Longrightarrow>
   logGrows w w' \<and> (\<forall>t. Succeeded t \<in> set rs \<longrightarrow> ClonedTable b t target t ow \<in> set (bqLog w'))"
proof (induction ts arbitrary: w rs w')
  case Nil
  then show ?case by (simp add: logGrows_refl)
next
  case (Cons t ts)
  obtain r w2 where a: "restoreTable env w b t target t ow = (r, w2)"
    by (cases "restoreTable env w b t target t ow")
  obtain rs1 w3 where c: "restoreTables env b target ow ts w2 = (rs1, w3)"
    by (cases "restoreTables env b target ow ts w2")
  from Cons.prems a c have e: "w' = w3"
    "rs = (case r of Inr u \<Rightarrow> Succeeded t
          | Inl e \<Rightarrow> Failed t (''Failed to restore table '' @ t @ '': '' @ e)) # rs1"
    by simp_all
  note l1 = restoreTable_log [OF a]
  note l2 = Cons.IH [OF c]
  have g: "logGrows w w'" using l1 l2 e by (auto intro: logGrows_trans)
  have "\<forall>n. Succeeded n \<in> set rs \<longrightarrow> ClonedTable b n target n ow \<in> set (bqLog w')"
  proof (intro allI impI)
    fix n assume "Succeeded n \<in> set rs"
    with e(2) have "(r = Inr () \<and> n = t) \<or> Succeeded n \<in> set rs1"
      by (auto split: sum.splits)
    then show "ClonedTable b n target n ow \<in> set (bqLog w')"
      using l1 l2 e(1) logGrows_mem by blast
  qed
  with g show ?case by simp
qed

lemma recreateMaterializedView_log:
  "recreateMaterializedView env w d mv = (r, w') \<Longrightarrow> logGrows w w'"
  by (auto simp: recreateMaterializedView_def logGrows_def logged_def
      split: option.splits if_splits sum.splits)

lemma recreateEach_log:
  "recreateEach env d mvs w = (n, w') \<Longrightarrow> logGrows w w'"
proof (induction mvs arbitrary: w n w')
  case Nil
  then show ?case by (simp add: logGrows_refl)
next
  case (Cons mv mvs)
  obtain r w1 where a: "recreateMaterializedView env w d mv = (r, w1)"
    by (cases "recreateMaterializedView env w d mv")
  obtain n1 w2 where c: "recreateEach env d mvs w1 = (n1, w2)"
    by (cases "recreateEach env d mvs w1")
  from Cons.prems a c have "w' = w2" by (cases r) simp_all
  with recreateMaterializedView_log [OF a] Cons.IH [OF c] show ?case
    by (auto intro: logGrows_trans)
qed

lemma recreateMaterializedViewsInDataset_log:
  "recreateMaterializedViewsInDataset env w d = (n, w') \<Longrightarrow> logGrows w w'"
  by (auto simp: recreateMaterializedViewsInDataset_def logGrows_refl
      split: sum.splits if_splits dest: recreateEach_log)

lemma ensureTargetDataset_log:
  "ensureTargetDataset env w b target = Inr w1 \<Longrightarrow> logGrows w w1"
  by (auto simp: ensureTargetDataset_def logGrows_def logged_def Let_def
      split: option.splits if_splits)

lemma ensureTargetDataset_present:
  "fails env (DatasetExists target) = None \<Longrightarrow> datasetOf w target \<noteq> None \<Longrightarrow>
   ensureTargetDataset env w b target = Inr w"
  by (simp add: ensureTargetDataset_def)

text \<open>The body of the restore loop when the tables are listed and the target is there.\<close>

lemma restoreOneBackup_present:
  assumes "listBackupTables env w (BackupInfo.backupDatasetId backup) = Inr tableIds"
    and "tableIds \<noteq> []" and "distinct tableIds"
    and "fails env (DatasetExists (BackupInfo.sourceDatasetId backup)) = None"
    and "datasetOf w (BackupInfo.sourceDatasetId backup) \<noteq> None"
    and "restoreOneBackup env ow w backup = (r, w')"
    and "outs = map (restoreOutcome env w (BackupInfo.backupDatasetId backup)
                       (BackupInfo.sourceDatasetId backup) ow) tableIds"
  shows "tablesRestored r = length (filter succeeded outs)
       \<and> RestoreResult.success r = (filter (\<lambda>r. \<not> succeeded r) outs = [])
       \<and> RestoreResult.errors r = map errorOf (filter (\<lambda>r. \<not> succeeded r) outs)
       \<and> sourceBackupDatasetId r = BackupInfo.backupDatasetId backup
       \<and> targetDatasetId r = BackupInfo.sourceDatasetId backup
       \<and> logGrows w w'
       \<and> (\<forall>t. Succeeded t \<in> set outs \<longrightarrow>
             ClonedTable (BackupInfo.backupDatasetId backup) t
               (BackupInfo.sourceDatasetId backup) t ow \<in> set (bqLog w'))"
proof -
  let ?b = "BackupInfo.backupDatasetId backup"
  let ?t = "BackupInfo.sourceDatasetId backup"
  have en: "ensureTargetDataset env w ?b ?t = Inr w"
    using assms(4,5) by (rule ensureTargetDataset_present)
  obtain rs w2 where a: "restoreTables env ?b ?t ow tableIds w = (rs, w2)"
    by (cases "restoreTables env ?b ?t ow tableIds w")
  obtain n w3 where c: "recreateMaterializedViewsInDataset env w2 ?t = (n, w3)"
    by (cases "recreateMaterializedViewsInDataset env w2 ?t")
  have rs: "rs = outs"
    using restoreTables_outcomes [OF assms(3), of w ?t w env ?b ow] a assms(7) by simp
  have res: "r = \<lparr>sourceBackupDatasetId = ?b, targetDatasetId = ?t,
                  tablesRestored = length (filter succeeded outs),
                  materializedViewsRecreated = n,
                  success = (length (filter (\<lambda>r. \<not> succeeded r) outs) = 0),
                  errors = (if length (filter (\<lambda>r. \<not> succeeded r) outs) > 0
                            then map errorOf (filter (\<lambda>r. \<not> succeeded r) outs) else [])\<rparr>"
    and w': "w' = w3"
    using assms(1,2,6) en a c rs by (simp_all add: restoreOneBackup_def Let_def)
  note l1 = restoreTables_log [OF a]
  note l2 = recreateMaterializedViewsInDataset_log [OF c]
  have g: "logGrows w w'" using l1 l2 w' by (auto intro: logGrows_trans)
  have "\<forall>t. Succeeded t \<in> set outs \<longrightarrow> ClonedTable ?b t ?t t ow \<in> set (bqLog w')"
    using l1 l2 rs w' logGrows_mem by blast
  with g show ?thesis unfolding res by auto
qed

lemma restoreOneBackup_log:
  "restoreOneBackup env ow w backup = (r, w') \<Longrightarrow> logGrows w w'"
proof -
  assume a: "restoreOneBackup env ow w backup = (r, w')"
  let ?b = "BackupInfo.backupDatasetId backup"
  let ?t = "BackupInfo.sourceDatasetId backup"
  show ?thesis
  proof (cases "listBackupTables env w ?b")
    case (Inl e)
    with a show ?thesis by (simp add: restoreOneBackup_def Let_def logGrows_refl)
  next
    case (Inr tableIds)
    show ?thesis
    proof (cases "tableIds = []")
      case True
      with a Inr show ?thesis by (simp add: restoreOneBackup_def Let_def logGrows_refl)
    next
      case False
      show ?thesis
      proof (cases "ensureTargetDataset env w ?b ?t")
        case (Inl e)
        with a Inr False show ?thesis by (simp add: restoreOneBackup_def Let_def logGrows_refl)
      next
        case (Inr w1)
        obtain rs w2 where b: "restoreTables env ?b ?t ow tableIds w1 = (rs, w2)"
          by (cases "restoreTables env ?b ?t ow tableIds w1")
        obtain n w3 where c: "recreateMaterializedViewsInDataset env w2 ?t = (n, w3)"
          by (cases "recreateMaterializedViewsInDataset env w2 ?t")
        from a \<open>listBackupTables env w ?b = Inr tableIds\<close> False Inr b c have "w' = w3"
          by (simp add: restoreOneBackup_def Let_def)
        with ensureTargetDataset_log [OF Inr] restoreTables_log [OF b]
          recreateMaterializedViewsInDataset_log [OF c]
        show ?thesis by (auto intro: logGrows_trans)
      qed
    qed
  qed
qed

lemma restoreEach_log:
  "restoreEach env ow bs w = (rs, w') \<Longrightarrow> logGrows w w'"
proof (induction bs arbitrary: w rs w')
  case Nil
  then show ?case by (simp add: logGrows_refl)
next
  case (Cons b bs)
  obtain r w1 where a: "restoreOneBackup env ow w b = (r, w1)"
    by (cases "restoreOneBackup env ow w b")
  obtain rs1 w2 where c: "restoreEach env ow bs w1 = (rs1, w2)"
    by (cases "restoreEach env ow bs w1")
  from Cons.prems a c have "w' = w2" by simp
  with restoreOneBackup_log [OF a] Cons.IH [OF c] show ?case
    by (auto intro: logGrows_trans)
qed

lemma length_restoreEach: "length (fst (restoreEach env ow bs w)) = length bs"
proof (induction bs arbitrary: w)
  case Nil
  show ?case by simp
next
  case (Cons b bs)
  obtain r w1 where a: "restoreOneBackup env ow w b = (r, w1)"
    by (cases "restoreOneBackup env ow w b")
  obtain rs1 w2 where c: "restoreEach env ow bs w1 = (rs1, w2)"
    by (cases "restoreEach env ow bs w1")
  from Cons.IH [of w1] a c show ?case by simp
qed

text \<open>
  The result at position \<open>k\<close> is the result of the loop body on the \<open>k\<close>-th backup in the
  warehouse that the backups before it have left, and the log goes on growing after it.
\<close>

lemma restoreEach_nth:
  assumes "k < length bs"
  shows "fst (restoreEach env ow bs w) ! k
           = fst (restoreOneBackup env ow (snd (restoreEach env ow (take k bs) w)) (bs ! k))
       \<and> logGrows (snd (restoreOneBackup env ow (snd (restoreEach env ow (take k bs) w)) (bs ! k)))
           (snd (restoreEach env ow bs w))"
  using assms
proof (induction bs arbitrary: w k)
  case Nil
  then show ?case by simp
next
  case (Cons b bs)
  obtain r w1 where a: "restoreOneBackup env ow w b = (r, w1)"
    by (cases "restoreOneBackup env ow w b")
  obtain rs1 w2 where c: "restoreEach env ow bs w1 = (rs1, w2)"
    by (cases "restoreEach env ow bs w1")
  show ?case
  proof (cases k)
    case 0
    with a c restoreEach_log [OF c] show ?thesis by simp
  next
    case (Suc j)
    with Cons.prems have j: "j < length bs" by simp
    obtain rs3 w3 where d: "restoreEach env ow (take j bs) w1 = (rs3, w3)"
      by (cases "restoreEach env ow (take j bs) w1")
    from Cons.IH [OF j, of w1] a c d Suc show ?thesis by simp
  qed
qed

lemma succeeded_restoreOutcome:
  "succeeded (restoreOutcome env w b target False t) =
     (fails env (TableExists target t) = None \<and> tableOf w target t = None
      \<and> fails env (CloneJob b t target t) = None)"
  by (auto simp: restoreOutcome_def split: option.splits)

text \<open>
  C6. In a restore call without overwrite that returns, take the backup at position
  \<open>k\<close> of the resolved set, in the warehouse as the backups before it have left it, with
  its snapshot tables listed (their names differ) and the target dataset reachable. If
  the table \<open>X\<close> of the backup already exists in the target, the clone of \<open>X\<close> is not
  attempted: the operation fails with the target-exists error, the message is among the
  errors of the result and the result has no success. The count of restored tables is
  the number of listed tables that did not exist in the target and whose existence check
  and clone job did not throw; \<open>X\<close> is not one of them, and each of them has been cloned
  by the end of the call.
\<close>

theorem restoreBackups_target_exists:
  assumes call: "restoreBackups env w options = (Inr results, w')"
    and ow: "overwrite options \<noteq> Some True"
    and ts: "backupTimestamp options = Some ts"
    and found: "found = listBackupsForTimestamp (map fst (bqDatasets w)) ts"
    and k: "k < length found"
    and wk: "wk = snd (restoreEach env False (take k found) w)"
    and bk: "bk = BackupInfo.backupDatasetId (found ! k)"
    and target: "target = BackupInfo.sourceDatasetId (found ! k)"
    and lt: "listBackupTables env wk bk = Inr tableIds" "distinct tableIds" "X \<in> set tableIds"
    and ex: "tableOf wk target X \<noteq> None"
    and chk: "fails env (DatasetExists target) = None" "fails env (TableExists target X) = None"
  shows "fst (restoreTable env wk bk X target X False) = Inl (targetExistsMessage env target X)
     \<and> (''Failed to restore table '' @ X @ '': '' @ targetExistsMessage env target X)
         \<in> set (RestoreResult.errors (results ! k))
     \<and> \<not> RestoreResult.success (results ! k)
     \<and> tablesRestored (results ! k) =
         length (filter (\<lambda>t. fails env (TableExists target t) = None \<and> tableOf wk target t = None
                              \<and> fails env (CloneJob bk t target t) = None) tableIds)
     \<and> (\<forall>t \<in> set tableIds.
           fails env (TableExists target t) = None \<and> tableOf wk target t = None
             \<and> fails env (CloneJob bk t target t) = None
           \<longrightarrow> t \<noteq> X \<and> ClonedTable bk t target t False \<in> set (bqLog w'))"
proof -
  have o: "(case overwrite options of Some b \<Rightarrow> b | None \<Rightarrow> False) = False"
    using ow by (cases "overwrite options") auto
  have res: "results = fst (restoreEach env False found w)"
    and w': "w' = snd (restoreEach env False found w)"
    using call ts found o
    by (auto simp: restoreBackups_def Let_def split: option.splits if_splits prod.splits)
  obtain r w3 where one: "restoreOneBackup env False wk (found ! k) = (r, w3)"
    by (cases "restoreOneBackup env False wk (found ! k)")
  from restoreEach_nth [OF k, of env False w] one
  have rk: "results ! k = r" and g: "logGrows w3 w'"
    unfolding res w' wk by simp_all
  let ?outs = "map (restoreOutcome env wk bk target False) tableIds"
  have ne: "tableIds \<noteq> []" using lt(3) by auto
  have dt: "datasetOf wk target \<noteq> None"
    using ex by (auto simp: tableOf_def split: option.splits)
  note p = restoreOneBackup_present [OF lt(1) [unfolded bk] ne lt(2) chk(1) [unfolded target]
      dt [unfolded target] one, of ?outs, unfolded bk [symmetric] target [symmetric], OF refl]
  from p have p1: "tablesRestored r = length (filter succeeded ?outs)"
    and p2: "RestoreResult.success r = (filter (\<lambda>r. \<not> succeeded r) ?outs = [])"
    and p3: "RestoreResult.errors r = map errorOf (filter (\<lambda>r. \<not> succeeded r) ?outs)"
    and p7: "\<forall>t. Succeeded t \<in> set ?outs \<longrightarrow> ClonedTable bk t target t False \<in> set (bqLog w3)"
    by blast+
  have x: "restoreOutcome env wk bk target False X =
      Failed X (''Failed to restore table '' @ X @ '': '' @ targetExistsMessage env target X)"
    using ex chk(2) by (simp add: restoreOutcome_def)
  have c1: "fst (restoreTable env wk bk X target X False) = Inl (targetExistsMessage env target X)"
    using ex chk(2) by (simp add: restoreTable_def)
  have xin: "Failed X (''Failed to restore table '' @ X @ '': '' @ targetExistsMessage env target X)
      \<in> set (filter (\<lambda>r. \<not> succeeded r) ?outs)"
    using lt(3) x by (auto simp: image_iff intro!: bexI [of _ X])
  have c2: "(''Failed to restore table '' @ X @ '': '' @ targetExistsMessage env target X)
         \<in> set (RestoreResult.errors (results ! k))"
  proof -
    have "errorOf (Failed X (''Failed to restore table '' @ X @ '': '' @ targetExistsMessage env target X))
        \<in> set (map errorOf (filter (\<lambda>r. \<not> succeeded r) ?outs))"
      using xin by (simp only: set_map) (rule imageI)
    then show ?thesis unfolding rk p3 by simp
  qed
  have "filter (\<lambda>r. \<not> succeeded r) ?outs \<noteq> []"
    using xin by (metis empty_iff empty_set)
  then have c3: "\<not> RestoreResult.success (results ! k)"
    unfolding rk p2 by simp
  have c4: "tablesRestored (results ! k) =
         length (filter (\<lambda>t. fails env (TableExists target t) = None \<and> tableOf wk target t = None
                              \<and> fails env (CloneJob bk t target t) = None) tableIds)"
    unfolding rk p1 by (simp add: filter_map o_def succeeded_restoreOutcome)
  have c5: "\<forall>t \<in> set tableIds.
           fails env (TableExists target t) = None \<and> tableOf wk target t = None
             \<and> fails env (CloneJob bk t target t) = None
           \<longrightarrow> t \<noteq> X \<and> ClonedTable bk t target t False \<in> set (bqLog w')"
  proof (intro ballI impI)
    fix t assume t: "t \<in> set tableIds"
      and okt: "fails env (TableExists target t) = None \<and> tableOf wk target t = None
             \<and> fails env (CloneJob bk t target t) = None"
    from okt ex have "t \<noteq> X" by auto
    moreover have "restoreOutcome env wk bk target False t = Succeeded t"
      using okt by (simp add: restoreOutcome_def)
    then have "Succeeded t \<in> set ?outs" using t by (auto simp: image_iff intro!: bexI [of _ t])
    with p7 have "ClonedTable bk t target t False \<in> set (bqLog w3)" by blast
    with g have "ClonedTable bk t target t False \<in> set (bqLog w')" by (rule logGrows_mem)
    ultimately show "t \<noteq> X \<and> ClonedTable bk t target t False \<in> set (bqLog w')" by simp
  qed
  from c1 c2 c3 c4 c5 show ?thesis by simp
qed

text \<open>
  In the third project \<^verbatim>\<open>orders\<close> is refused and \<^verbatim>\<open>items\<close> is restored and
  counted.
\<close>

theorem restoreBackups_target_exists_witness:
  "fst (restoreBackups exampleEnv restoreWorld
          \<lparr>projectId' = ''acme'', backupTimestamp = Some 1734273022000, overwrite = None\<rparr>)
     = Inr [\<lparr>sourceBackupDatasetId = ''zzz_backup_20241215_143022_sales'',
             targetDatasetId = ''sales'', tablesRestored = 1, materializedViewsRecreated = 0,
             success = False,
             errors = [''Failed to restore table orders: ''
                       @ targetExistsMessage exampleEnv ''sales'' ''orders'']\<rparr>]
   \<and> ClonedTable ''zzz_backup_20241215_143022_sales'' ''items'' ''sales'' ''items'' False
       \<in> set (bqLog (snd (restoreBackups exampleEnv restoreWorld
          \<lparr>projectId' = ''acme'', backupTimestamp = Some 1734273022000, overwrite = None\<rparr>)))"
proof -
  let ?O = "\<lparr>projectId' = ''acme'', backupTimestamp = Some 1734273022000, overwrite = None\<rparr>"
  let ?b = "\<lparr>backupDatasetId = ''zzz_backup_20241215_143022_sales'', sourceDatasetId = ''sales'',
            timestamp = 1734273022000\<rparr>"
  let ?R = "[\<lparr>sourceBackupDatasetId = ''zzz_backup_20241215_143022_sales'',
             targetDatasetId = ''sales'', tablesRestored = 1, materializedViewsRecreated = 0,
             success = False,
             errors = [''Failed to restore table orders: ''
                       @ targetExistsMessage exampleEnv ''sales'' ''orders'']\<rparr>]"
  have ev: "fst (restoreBackups exampleEnv restoreWorld ?O) = Inr ?R"
    by code_simp
  then have call: "restoreBackups exampleEnv restoreWorld ?O
      = (Inr ?R, snd (restoreBackups exampleEnv restoreWorld ?O))"
    by (metis prod.collapse)
  have ow: "overwrite ?O \<noteq> Some True" by simp
  have ts: "backupTimestamp ?O = Some 1734273022000" by simp
  have found: "[?b] = listBackupsForTimestamp (map fst (bqDatasets restoreWorld)) 1734273022000"
    by code_simp
  have k: "0 < length [?b]" by simp
  have wk: "restoreWorld = snd (restoreEach exampleEnv False (take 0 [?b]) restoreWorld)" by simp
  have bk: "''zzz_backup_20241215_143022_sales'' = BackupInfo.backupDatasetId ([?b] ! 0)" by simp
  have target: "''sales'' = BackupInfo.sourceDatasetId ([?b] ! 0)" by simp
  have lt: "listBackupTables exampleEnv restoreWorld ''zzz_backup_20241215_143022_sales''
      = Inr [''orders'', ''items'']" "distinct [''orders'', ''items'']"
      "''orders'' \<in> set [''orders'', ''items'']"
    by (simp_all add: listBackupTables_def exampleEnv_def restoreWorld_def datasetOf_def
        List.map_filter_simps plainTable_def)
  have ex: "tableOf restoreWorld ''sales'' ''orders'' \<noteq> None"
    by (simp add: tableOf_def datasetOf_def restoreWorld_def plainTable_def)
  have chk: "fails exampleEnv (DatasetExists ''sales'') = None"
    "fails exampleEnv (TableExists ''sales'' ''orders'') = None"
    by (simp_all add: exampleEnv_def)
  note t = restoreBackups_target_exists [OF call ow ts found k wk bk target lt ex chk]
  have i: "''items'' \<in> set [''orders'', ''items'']" by simp
  have ok: "fails exampleEnv (TableExists ''sales'' ''items'') = None
      \<and> tableOf restoreWorld ''sales'' ''items'' = None
      \<and> fails exampleEnv (CloneJob ''zzz_backup_20241215_143022_sales'' ''items'' ''sales'' ''items'') = None"
    by (simp add: exampleEnv_def tableOf_def datasetOf_def restoreWorld_def plainTable_def)
  from t [THEN conjunct2, THEN conjunct2, THEN conjunct2, THEN conjunct2, rule_format, OF i ok]
  have "ClonedTable ''zzz_backup_20241215_143022_sales'' ''items'' ''sales'' ''items'' False
       \<in> set (bqLog (snd (restoreBackups exampleEnv restoreWorld ?O)))"
    by simp
  with ev show ?thesis by simp
qed


section \<open>Delete: grouping the backups by instant\<close>

subsection \<open>Zero-padded numerals\<close>

lemma fixedDigits_zero: "fixedDigits k 0 = replicate k 0"
  by (induction k) (simp_all add: replicate_append_same)

lemma length_fixedDigits [simp]: "length (fixedDigits k n) = k"
  by (induction k arbitrary: n) simp_all

lemma digitChar_0: "digitChar 0 = CHR ''0''"
proof -
  have "char_of (of_char CHR ''0'' :: nat) = CHR ''0''" by (rule char_of_char)
  then show ?thesis by (simp add: digitChar_def)
qed

lemma length_natString: "n < 10 ^ k \<Longrightarrow> 0 < k \<Longrightarrow> length (natString n) \<le> k"
proof (induction k arbitrary: n)
  case 0
  then show ?case by simp
next
  case (Suc k)
  show ?case
  proof (cases "n < 10")
    case True
    then show ?thesis by (simp add: natString_1)
  next
    case False
    then have k: "0 < k" using Suc.prems by (cases k) simp_all
    have "n div 10 < 10 ^ k" using Suc.prems by (simp add: less_mult_imp_div_less mult.commute)
    from Suc.IH [OF this k] False show ?thesis
      by (subst natString.simps) simp
  qed
qed

lemma padStart_natString:
  "n < 10 ^ k \<Longrightarrow> 0 < k \<Longrightarrow>
   padStart k CHR ''0'' (natString n) = map digitChar (fixedDigits k n)"
proof (induction k arbitrary: n)
  case 0
  then show ?case by simp
next
  case (Suc k)
  show ?case
  proof (cases "n < 10")
    case True
    then show ?thesis
      by (simp add: natString_1 padStart_def fixedDigits_zero digitChar_0)
  next
    case False
    then have k: "0 < k" using Suc.prems by (cases k) simp_all
    have d: "n div 10 < 10 ^ k" using Suc.prems by (simp add: less_mult_imp_div_less mult.commute)
    have l: "length (natString (n div 10)) \<le> k" using d k by (rule length_natString)
    have "padStart (Suc k) CHR ''0'' (natString n)
        = padStart k CHR ''0'' (natString (n div 10)) @ [digitChar (n mod 10)]"
      using False l by (subst natString.simps) (simp add: padStart_def Suc_diff_le)
    with Suc.IH [OF d k] show ?thesis by simp
  qed
qed

lemma fixedDigits_lt: "d \<in> set (fixedDigits k n) \<Longrightarrow> d < 10"
  by (induction k arbitrary: n) auto

lemma digitsVal_snoc: "digitsVal (ds @ [c]) = 10 * digitsVal ds + digitVal c"
  by (simp add: digitsVal_def)

lemma digitsVal_fixedDigits:
  "n < 10 ^ k \<Longrightarrow> digitsVal (map digitChar (fixedDigits k n)) = int n"
proof (induction k arbitrary: n)
  case 0
  then show ?case by (simp add: digitsVal_def)
next
  case (Suc k)
  have d: "n div 10 < 10 ^ k" using Suc.prems by (simp add: less_mult_imp_div_less mult.commute)
  have "digitsVal (map digitChar (fixedDigits (Suc k) n))
      = 10 * digitsVal (map digitChar (fixedDigits k (n div 10))) + digitVal (digitChar (n mod 10))"
    by (simp add: digitsVal_snoc)
  also have "\<dots> = 10 * int (n div 10) + int (n mod 10)"
    using Suc.IH [OF d] by (simp add: digitVal_digitChar)
  also have "\<dots> = int n"
  proof -
    have "int (10 * (n div 10) + n mod 10) = int n" by simp
    then show ?thesis by (simp only: of_nat_add of_nat_mult of_nat_numeral)
  qed
  finally show ?case .
qed

lemma padStart_natString_inj:
  assumes "a < 10 ^ k" "b < 10 ^ k" "0 < k"
    and "padStart k CHR ''0'' (natString a) = padStart k CHR ''0'' (natString b)"
  shows "a = b"
proof -
  have "int a = digitsVal (padStart k CHR ''0'' (natString a))"
    using assms(1,3) by (simp add: padStart_natString digitsVal_fixedDigits)
  also have "\<dots> = digitsVal (padStart k CHR ''0'' (natString b))"
    by (simp only: assms(4))
  also have "\<dots> = int b"
    using assms(2,3) by (simp add: padStart_natString digitsVal_fixedDigits)
  finally show ?thesis by simp
qed

lemma length_padStart_natString:
  "n < 10 ^ k \<Longrightarrow> 0 < k \<Longrightarrow> length (padStart k CHR ''0'' (natString n)) = k"
  by (simp add: padStart_natString)


subsection \<open>The ISO string determines the instant\<close>

lemma year_valid:
  assumes "validTime t"
  shows "- 1000000 < YearFromTime t \<and> YearFromTime t < 1000000"
proof -
  note b = YearFromTime_bounds [of t]
  have d: "- 100000000 \<le> Day t" "Day t \<le> 100000000"
  proof -
    have w: "0 \<le> TimeWithinDay t" "TimeWithinDay t < 86400000"
      by (simp_all add: TimeWithinDay_def msPerDay_def)
    have e: "t = Day t * 86400000 + TimeWithinDay t"
      using Day_TimeWithinDay [of t] by (simp add: msPerDay_def)
    have r: "- 8640000000000000 \<le> t" "t \<le> 8640000000000000"
      using assms by (simp_all add: validTime_def abs_le_iff)
    show "- 100000000 \<le> Day t" using w e r by linarith
    show "Day t \<le> 100000000" using w e r by linarith
  qed
  have up: "YearFromTime t < 1000000"
  proof (rule ccontr)
    assume "\<not> YearFromTime t < 1000000"
    then have "DayFromYear 1000000 \<le> DayFromYear (YearFromTime t)"
      by (intro DayFromYear_mono) simp
    moreover have "DayFromYear 1000000 = 364522972" by (simp add: DayFromYear_def)
    ultimately show False using b d by simp
  qed
  have lo: "- 1000000 < YearFromTime t"
  proof (rule ccontr)
    assume "\<not> - 1000000 < YearFromTime t"
    then have "DayFromYear (YearFromTime t + 1) \<le> DayFromYear (- 999999)"
      by (intro DayFromYear_mono) simp
    moreover have "DayFromYear (- 999999) < - 100000000" by (simp add: DayFromYear_def)
    ultimately show False using b d by simp
  qed
  from up lo show ?thesis by simp
qed

lemma toISOString_split: "toISOString t = isoYear (YearFromTime t) @ isoTail t"
  by (simp add: toISOString_def isoTail_def)

lemma pad2_nat: "0 \<le> n \<Longrightarrow> pad2 n = padStart 2 CHR ''0'' (natString (nat n))"
  by (simp add: pad2_def numberToString_def)

lemma length_pad2: "0 \<le> n \<Longrightarrow> n < 100 \<Longrightarrow> length (pad2 n) = 2"
  using length_padStart_natString [of "nat n" 2] by (simp add: pad2_nat)

lemma pad2_inj:
  assumes "0 \<le> a" "a < 100" "0 \<le> b" "b < 100" "pad2 a = pad2 b"
  shows "a = b"
proof -
  have "nat a = nat b"
    using padStart_natString_inj [of "nat a" 2 "nat b"] assms by (simp add: pad2_nat)
  with assms show ?thesis by simp
qed

lemma pad3_nat: "0 \<le> n \<Longrightarrow>
  padStart 3 CHR ''0'' (numberToString n) = padStart 3 CHR ''0'' (natString (nat n))"
  by (simp add: numberToString_def)

lemma length_pad3: "0 \<le> n \<Longrightarrow> n < 1000 \<Longrightarrow> length (padStart 3 CHR ''0'' (numberToString n)) = 3"
  using length_padStart_natString [of "nat n" 3] by (simp add: pad3_nat)

lemma pad3_inj:
  assumes "0 \<le> a" "a < 1000" "0 \<le> b" "b < 1000"
    "padStart 3 CHR ''0'' (numberToString a) = padStart 3 CHR ''0'' (numberToString b)"
  shows "a = b"
proof -
  have "nat a = nat b"
    using padStart_natString_inj [of "nat a" 3 "nat b"] assms by (simp add: pad3_nat)
  with assms show ?thesis by simp
qed

lemma msFromTime_range: "0 \<le> msFromTime t \<and> msFromTime t < 1000"
  by (simp add: msFromTime_def msPerSecond_def)

lemma length_isoTail: "length (isoTail t) = 20"
proof -
  have "length (pad2 (MonthFromTime t + 1)) = 2" "length (pad2 (DateFromTime t)) = 2"
    "length (pad2 (HourFromTime t)) = 2" "length (pad2 (MinFromTime t)) = 2"
    "length (pad2 (SecFromTime t)) = 2"
    using MonthFromTime_range [of t] DateFromTime_range [of t] HourFromTime_range [of t]
      MinFromTime_range [of t] SecFromTime_range [of t]
    by (simp_all add: length_pad2)
  moreover have "length (padStart 3 CHR ''0'' (numberToString (msFromTime t))) = 3"
    using msFromTime_range [of t] by (simp add: length_pad3)
  ultimately show ?thesis by (simp add: isoTail_def)
qed

lemma isoTail_inj:
  assumes "isoTail t = isoTail u"
  shows "MonthFromTime t = MonthFromTime u \<and> DateFromTime t = DateFromTime u
       \<and> HourFromTime t = HourFromTime u \<and> MinFromTime t = MinFromTime u
       \<and> SecFromTime t = SecFromTime u \<and> msFromTime t = msFromTime u"
proof -
  have l: "length (pad2 (MonthFromTime t + 1)) = length (pad2 (MonthFromTime u + 1))"
    "length (pad2 (DateFromTime t)) = length (pad2 (DateFromTime u))"
    "length (pad2 (HourFromTime t)) = length (pad2 (HourFromTime u))"
    "length (pad2 (MinFromTime t)) = length (pad2 (MinFromTime u))"
    "length (pad2 (SecFromTime t)) = length (pad2 (SecFromTime u))"
    using MonthFromTime_range [of t] DateFromTime_range [of t] HourFromTime_range [of t]
      MinFromTime_range [of t] SecFromTime_range [of t]
      MonthFromTime_range [of u] DateFromTime_range [of u] HourFromTime_range [of u]
      MinFromTime_range [of u] SecFromTime_range [of u]
    by (simp_all add: length_pad2)
  have l3: "length (padStart 3 CHR ''0'' (numberToString (msFromTime t)))
      = length (padStart 3 CHR ''0'' (numberToString (msFromTime u)))"
    using msFromTime_range [of t] msFromTime_range [of u] by (simp add: length_pad3)
  from assms l l3 have e: "pad2 (MonthFromTime t + 1) = pad2 (MonthFromTime u + 1)"
    "pad2 (DateFromTime t) = pad2 (DateFromTime u)"
    "pad2 (HourFromTime t) = pad2 (HourFromTime u)"
    "pad2 (MinFromTime t) = pad2 (MinFromTime u)"
    "pad2 (SecFromTime t) = pad2 (SecFromTime u)"
    "padStart 3 CHR ''0'' (numberToString (msFromTime t))
       = padStart 3 CHR ''0'' (numberToString (msFromTime u))"
    unfolding isoTail_def by simp_all
  have "MonthFromTime t + 1 = MonthFromTime u + 1"
    using e(1) MonthFromTime_range [of t] MonthFromTime_range [of u]
    by (intro pad2_inj) simp_all
  moreover have "DateFromTime t = DateFromTime u"
    using e(2) DateFromTime_range [of t] DateFromTime_range [of u]
    by (intro pad2_inj) simp_all
  moreover have "HourFromTime t = HourFromTime u"
    using e(3) HourFromTime_range [of t] HourFromTime_range [of u]
    by (intro pad2_inj) simp_all
  moreover have "MinFromTime t = MinFromTime u"
    using e(4) MinFromTime_range [of t] MinFromTime_range [of u]
    by (intro pad2_inj) simp_all
  moreover have "SecFromTime t = SecFromTime u"
    using e(5) SecFromTime_range [of t] SecFromTime_range [of u]
    by (intro pad2_inj) simp_all
  moreover have "msFromTime t = msFromTime u"
    using e(6) msFromTime_range [of t] msFromTime_range [of u]
    by (intro pad3_inj) simp_all
  ultimately show ?thesis by simp
qed

lemma length_isoYear:
  assumes "- 1000000 < y" "y < 1000000"
  shows "length (isoYear y) = (if 0 \<le> y \<and> y \<le> 9999 then 4 else 7)"
proof (cases "0 \<le> y \<and> y \<le> 9999")
  case True
  then have "nat y < 10 ^ 4" by (simp add: nat_less_iff)
  from length_padStart_natString [OF this] True show ?thesis by (simp add: isoYear_def)
next
  case False
  have "nat \<bar>y\<bar> < 10 ^ 6" using assms by (simp add: nat_less_iff abs_less_iff)
  from length_padStart_natString [OF this] False show ?thesis by (auto simp: isoYear_def)
qed

lemma isoYear_inj:
  assumes a: "- 1000000 < a" "a < 1000000" and b: "- 1000000 < b" "b < 1000000"
    and e: "isoYear a = isoYear b"
  shows "a = b"
proof -
  have l: "length (isoYear a) = length (isoYear b)" using e by simp
  show ?thesis
  proof (cases "0 \<le> a \<and> a \<le> 9999")
    case True
    with l length_isoYear [OF a] length_isoYear [OF b] have tb: "0 \<le> b \<and> b \<le> 9999"
      by (simp split: if_splits)
    have "nat a < 10 ^ 4" "nat b < 10 ^ 4" using True tb by (simp_all add: nat_less_iff)
    moreover have "padStart 4 CHR ''0'' (natString (nat a)) = padStart 4 CHR ''0'' (natString (nat b))"
      using e True tb by (simp add: isoYear_def)
    ultimately have "nat a = nat b" by (intro padStart_natString_inj [of _ 4]) simp_all
    with True tb show ?thesis by linarith
  next
    case False
    with l length_isoYear [OF a] length_isoYear [OF b] have fb: "\<not> (0 \<le> b \<and> b \<le> 9999)"
      by (simp split: if_splits)
    from e False fb have s: "(if a < 0 then CHR ''-'' else CHR ''+'') = (if b < 0 then CHR ''-'' else CHR ''+'')"
      and p: "padStart 6 CHR ''0'' (natString (nat \<bar>a\<bar>)) = padStart 6 CHR ''0'' (natString (nat \<bar>b\<bar>))"
      by (simp_all add: isoYear_def)
    have "nat \<bar>a\<bar> < 10 ^ 6" "nat \<bar>b\<bar> < 10 ^ 6"
      using a b by (simp_all add: nat_less_iff abs_less_iff)
    with p have "nat \<bar>a\<bar> = nat \<bar>b\<bar>" by (intro padStart_natString_inj [of _ 6]) simp_all
    then have m: "\<bar>a\<bar> = \<bar>b\<bar>" by simp
    from s have "(a < 0) = (b < 0)" by (simp split: if_splits)
    with m show ?thesis by (cases "a < 0") simp_all
  qed
qed

text \<open>Two valid Dates with the same ISO string are the same instant.\<close>

lemma toISOString_inj:
  assumes "validTime t" "validTime u" "toISOString t = toISOString u"
  shows "t = u"
proof -
  note yt = year_valid [OF assms(1)] and yu = year_valid [OF assms(2)]
  have e: "isoYear (YearFromTime t) @ isoTail t = isoYear (YearFromTime u) @ isoTail u"
    using assms(3) by (simp only: toISOString_split)
  then have "length (isoYear (YearFromTime t) @ isoTail t)
      = length (isoYear (YearFromTime u) @ isoTail u)" by simp
  then have "length (isoYear (YearFromTime t)) = length (isoYear (YearFromTime u))"
    by (simp add: length_isoTail)
  with e have ey: "isoYear (YearFromTime t) = isoYear (YearFromTime u)"
    and et: "isoTail t = isoTail u" by simp_all
  have y: "YearFromTime t = YearFromTime u"
    using yt yu ey by (intro isoYear_inj) simp_all
  note f = isoTail_inj [OF et]
  have "t - msFromTime t =
      MakeDate (MakeDay (YearFromTime t) (MonthFromTime t) (DateFromTime t))
        (MakeTime (HourFromTime t) (MinFromTime t) (SecFromTime t) 0)"
    by (rule MakeDate_fields [symmetric])
  also have "\<dots> =
      MakeDate (MakeDay (YearFromTime u) (MonthFromTime u) (DateFromTime u))
        (MakeTime (HourFromTime u) (MinFromTime u) (SecFromTime u) 0)"
    using y f by (simp only:)
  also have "\<dots> = u - msFromTime u" by (rule MakeDate_fields)
  finally have "t - msFromTime t = u - msFromTime u" .
  moreover have "msFromTime t = msFromTime u" using f by blast
  ultimately show ?thesis by linarith
qed


subsection \<open>The loop of \<open>groupBackupsByTimestamp\<close>\<close>

lemma grouped_Nil: "grouped [] []"
  by (simp add: grouped_def)

lemma map_fst_update:
  "map fst (map (\<lambda>(k, g). if k = key then (k, f g) else (k, g)) gs) = map fst gs"
  by (induction gs) auto

lemma groupStep_new:
  assumes "map_of gs (isoKey b) = None"
  shows "groupStep gs b =
     gs @ [(isoKey b, \<lparr>BackupGroup.timestamp = BackupInfo.timestamp b, timestampStr = isoKey b,
                        backups = [b]\<rparr>)]"
proof -
  have "isoKey b \<notin> fst ` set gs" using assms by (simp add: map_of_eq_None_iff)
  then have "map (\<lambda>(k, g). if k = isoKey b then (k, g\<lparr>backups := backups g @ [b]\<rparr>) else (k, g)) gs
      = gs"
    by (induction gs) auto
  with assms show ?thesis by (simp add: groupStep_def isoKey_def Let_def)
qed

lemma groupStep_old:
  assumes "map_of gs (isoKey b) \<noteq> None"
  shows "groupStep gs b =
     map (\<lambda>(k, g). if k = isoKey b then (k, g\<lparr>backups := backups g @ [b]\<rparr>) else (k, g)) gs"
  using assms by (simp add: groupStep_def isoKey_def Let_def)

lemma grouped_step:
  assumes "grouped bs gs"
  shows "grouped (bs @ [b]) (groupStep gs b)"
proof -
  from assms have d: "distinct (map fst gs)" and ks: "set (map fst gs) = isoKey ` set bs"
    and inv: "\<And>p. p \<in> set gs \<Longrightarrow>
            timestampStr (snd p) = fst p \<and> toISOString (BackupGroup.timestamp (snd p)) = fst p
            \<and> BackupGroup.timestamp (snd p) \<in> BackupInfo.timestamp ` set bs
            \<and> backups (snd p) = filter (\<lambda>b. isoKey b = fst p) bs"
    unfolding grouped_def by blast+
  show ?thesis
  proof (cases "map_of gs (isoKey b) = None")
    case True
    then have n: "isoKey b \<notin> fst ` set gs" by (simp add: map_of_eq_None_iff)
    with ks have nb: "isoKey b \<notin> isoKey ` set bs" by simp
    then have "\<forall>x \<in> set bs. isoKey x \<noteq> isoKey b" by (metis imageI)
    then have f: "filter (\<lambda>x. isoKey x = isoKey b) bs = []"
      by (simp add: filter_empty_conv)
    let ?g = "\<lparr>BackupGroup.timestamp = BackupInfo.timestamp b, timestampStr = isoKey b, backups = [b]\<rparr>"
    have 1: "distinct (map fst (gs @ [(isoKey b, ?g)]))" using d n by simp
    have 2: "set (map fst (gs @ [(isoKey b, ?g)])) = isoKey ` set (bs @ [b])"
      using ks by auto
    have 3: "\<forall>p \<in> set (gs @ [(isoKey b, ?g)]).
            timestampStr (snd p) = fst p \<and> toISOString (BackupGroup.timestamp (snd p)) = fst p
            \<and> BackupGroup.timestamp (snd p) \<in> BackupInfo.timestamp ` set (bs @ [b])
            \<and> backups (snd p) = filter (\<lambda>x. isoKey x = fst p) (bs @ [b])"
    proof
      fix p assume "p \<in> set (gs @ [(isoKey b, ?g)])"
      then consider "p \<in> set gs" | "p = (isoKey b, ?g)" by auto
      then show "timestampStr (snd p) = fst p \<and> toISOString (BackupGroup.timestamp (snd p)) = fst p
            \<and> BackupGroup.timestamp (snd p) \<in> BackupInfo.timestamp ` set (bs @ [b])
            \<and> backups (snd p) = filter (\<lambda>x. isoKey x = fst p) (bs @ [b])"
      proof cases
        case 1
        then have "fst p \<noteq> isoKey b" using n by (metis imageI)
        then have "filter (\<lambda>x. isoKey x = fst p) (bs @ [b]) = filter (\<lambda>x. isoKey x = fst p) bs"
          by auto
        with inv [OF 1] show ?thesis by auto
      next
        case 2
        then show ?thesis using f by (simp add: isoKey_def)
      qed
    qed
    from 1 2 3 show ?thesis unfolding groupStep_new [OF True] grouped_def by blast
  next
    case False
    then have m: "isoKey b \<in> fst ` set gs" by (simp add: map_of_eq_None_iff)
    let ?u = "\<lambda>(k, g). if k = isoKey b then (k, g\<lparr>backups := backups g @ [b]\<rparr>) else (k, g)"
    have 1: "distinct (map fst (map ?u gs))" using d by (simp only: map_fst_update)
    have 2: "set (map fst (map ?u gs)) = isoKey ` set (bs @ [b])"
      using ks m by (simp only: map_fst_update) auto
    have 3: "\<forall>p \<in> set (map ?u gs).
            timestampStr (snd p) = fst p \<and> toISOString (BackupGroup.timestamp (snd p)) = fst p
            \<and> BackupGroup.timestamp (snd p) \<in> BackupInfo.timestamp ` set (bs @ [b])
            \<and> backups (snd p) = filter (\<lambda>x. isoKey x = fst p) (bs @ [b])"
    proof
      fix p assume "p \<in> set (map ?u gs)"
      then obtain q where q: "q \<in> set gs" and p: "p = ?u q" by auto
      show "timestampStr (snd p) = fst p \<and> toISOString (BackupGroup.timestamp (snd p)) = fst p
            \<and> BackupGroup.timestamp (snd p) \<in> BackupInfo.timestamp ` set (bs @ [b])
            \<and> backups (snd p) = filter (\<lambda>x. isoKey x = fst p) (bs @ [b])"
      proof (cases "fst q = isoKey b")
        case True
        then have "p = (fst q, (snd q)\<lparr>backups := backups (snd q) @ [b]\<rparr>)"
          using p by (cases q) simp
        with inv [OF q] True show ?thesis by auto
      next
        case False
        then have "p = q" using p by (cases q) simp
        moreover have "filter (\<lambda>x. isoKey x = fst q) (bs @ [b]) = filter (\<lambda>x. isoKey x = fst q) bs"
          using False by auto
        ultimately show ?thesis using inv [OF q] by auto
      qed
    qed
    from 1 2 3 show ?thesis unfolding groupStep_old [OF False] grouped_def by blast
  qed
qed

lemma grouped_foldl: "grouped bs gs \<Longrightarrow> grouped (bs @ cs) (foldl groupStep gs cs)"
proof (induction cs arbitrary: bs gs)
  case Nil
  then show ?case by simp
next
  case (Cons c cs)
  from Cons.IH [OF grouped_step [OF Cons.prems, of c]] show ?case by simp
qed

lemma grouped_all: "grouped bs (foldl groupStep [] bs)"
  using grouped_foldl [OF grouped_Nil, of bs] by simp

lemma groups_of:
  assumes "g \<in> set (groupBackupsByTimestamp bs)"
  shows "timestampStr g = toISOString (BackupGroup.timestamp g)
       \<and> BackupGroup.timestamp g \<in> BackupInfo.timestamp ` set bs
       \<and> backups g = filter (\<lambda>b. toISOString (BackupInfo.timestamp b) = timestampStr g) bs"
proof -
  from assms obtain p where p: "p \<in> set (foldl groupStep [] bs)" and g: "g = snd p"
    by (auto simp: groupBackupsByTimestamp_def)
  from grouped_all [of bs] p show ?thesis
    unfolding grouped_def g isoKey_def by auto
qed

lemma groups_keys:
  "distinct (map timestampStr (groupBackupsByTimestamp bs))
   \<and> set (map timestampStr (groupBackupsByTimestamp bs))
       = (\<lambda>b. toISOString (BackupInfo.timestamp b)) ` set bs"
proof -
  let ?gs = "foldl groupStep [] bs"
  note i = grouped_all [of bs]
  have e: "map timestampStr (map snd ?gs) = map fst ?gs"
    using i by (simp add: grouped_def)
  have d: "distinct (map timestampStr (map snd ?gs))"
    and s: "set (map timestampStr (map snd ?gs)) = isoKey ` set bs"
    using i unfolding e grouped_def by blast+
  from d have "distinct (map snd ?gs)" "inj_on timestampStr (set (map snd ?gs))"
    by (simp_all only: distinct_map)
  then have "distinct (map timestampStr (groupBackupsByTimestamp bs))"
    by (simp add: groupBackupsByTimestamp_def distinct_map)
  moreover have "set (map timestampStr (groupBackupsByTimestamp bs)) = isoKey ` set bs"
    using s by (simp add: groupBackupsByTimestamp_def image_image)
  ultimately show ?thesis by (simp add: isoKey_def [abs_def])
qed

lemma groups_sorted:
  "sorted (map (\<lambda>g. - BackupGroup.timestamp g) (groupBackupsByTimestamp bs))"
  by (simp add: groupBackupsByTimestamp_def)

lemma two_groups:
  assumes v: "validTime T" "validTime T2" and lt: "T2 < T"
    and a: "BackupInfo.timestamp aT = T" "BackupInfo.timestamp bT = T"
      "BackupInfo.timestamp aT2 = T2"
    and bs: "set bs = {aT, bT, aT2}"
  shows "\<exists>gT gT2. groupBackupsByTimestamp bs = [gT, gT2]
           \<and> BackupGroup.timestamp gT = T \<and> BackupGroup.timestamp gT2 = T2
           \<and> set (backups gT) = {aT, bT} \<and> set (backups gT2) = {aT2}"
proof -
  let ?G = "groupBackupsByTimestamp bs"
  have ne: "toISOString T \<noteq> toISOString T2"
    using toISOString_inj [OF v] lt by auto
  have ks: "set (map timestampStr ?G) = {toISOString T, toISOString T2}"
    using groups_keys [of bs] a bs by auto
  have d: "distinct (map timestampStr ?G)" using groups_keys [of bs] by simp
  have "length (map timestampStr ?G) = card (set (map timestampStr ?G))"
    using d by (simp only: distinct_card)
  also have "\<dots> = 2" unfolding ks using ne by simp
  finally have "length ?G = 2" by simp
  then obtain g1 g2 where G: "?G = [g1, g2]"
    by (cases ?G; cases "tl ?G") auto
  have m: "g1 \<in> set ?G" "g2 \<in> set ?G" by (simp_all add: G)
  note p1 = groups_of [OF m(1)] and p2 = groups_of [OF m(2)]
  have tsb: "BackupInfo.timestamp ` set bs = {T, T2}" using a bs by auto
  have t12: "BackupGroup.timestamp g1 \<in> {T, T2}" "BackupGroup.timestamp g2 \<in> {T, T2}"
    using p1 p2 tsb by auto
  have kne: "timestampStr g1 \<noteq> timestampStr g2" using d by (simp add: G)
  then have tne: "BackupGroup.timestamp g1 \<noteq> BackupGroup.timestamp g2" using p1 p2 by auto
  have "BackupGroup.timestamp g2 \<le> BackupGroup.timestamp g1"
    using groups_sorted [of bs] by (simp add: G)
  with t12 tne lt have t: "BackupGroup.timestamp g1 = T" "BackupGroup.timestamp g2 = T2"
    by auto
  have k1: "timestampStr g1 = toISOString T" and k2: "timestampStr g2 = toISOString T2"
    using p1 p2 t by simp_all
  have b1: "set (backups g1) = {aT, bT}"
  proof -
    have "backups g1 = filter (\<lambda>b. toISOString (BackupInfo.timestamp b) = toISOString T) bs"
      using p1 k1 by simp
    then have "set (backups g1) = {b \<in> {aT, bT, aT2}. toISOString (BackupInfo.timestamp b) = toISOString T}"
      using bs by simp
    also have "\<dots> = {aT, bT}" using a ne by auto
    finally show ?thesis .
  qed
  have b2: "set (backups g2) = {aT2}"
  proof -
    have "backups g2 = filter (\<lambda>b. toISOString (BackupInfo.timestamp b) = toISOString T2) bs"
      using p2 k2 by simp
    then have "set (backups g2) = {b \<in> {aT, bT, aT2}. toISOString (BackupInfo.timestamp b) = toISOString T2}"
      using bs by simp
    also have "\<dots> = {aT2}" using a ne by auto
    finally show ?thesis .
  qed
  from G t b1 b2 show ?thesis by blast
qed

text \<open>
  C7. Grouping: for every list of decoded backups, \<open>groupBackupsByTimestamp\<close> returns one
  group per distinct ISO string of a backup's instant (the strings of the groups are pairwise
  distinct and are exactly the strings of the backups), every group carries the string of its
  own instant and holds exactly the backups with that string, in their order, and the groups
  are sorted by instant, newest first. In particular, for backups of two sources at a valid
  instant \<open>T\<close> and one backup at an earlier valid instant \<open>T2\<close>, the result is exactly two
  groups: first the group of \<open>T\<close>, holding both backups of \<open>T\<close>, then the group of \<open>T2\<close>.
\<close>

theorem groupBackupsByTimestamp_groups:
  "distinct (map timestampStr (groupBackupsByTimestamp bs))
   \<and> set (map timestampStr (groupBackupsByTimestamp bs))
       = (\<lambda>b. toISOString (BackupInfo.timestamp b)) ` set bs
   \<and> (\<forall>g \<in> set (groupBackupsByTimestamp bs).
         timestampStr g = toISOString (BackupGroup.timestamp g)
         \<and> backups g = filter (\<lambda>b. toISOString (BackupInfo.timestamp b) = timestampStr g) bs)
   \<and> sorted (map (\<lambda>g. - BackupGroup.timestamp g) (groupBackupsByTimestamp bs))
   \<and> (validTime T \<and> validTime T2 \<and> T2 < T
        \<and> BackupInfo.timestamp aT = T \<and> BackupInfo.timestamp bT = T
        \<and> BackupInfo.timestamp aT2 = T2 \<and> set bs = {aT, bT, aT2}
       \<longrightarrow> (\<exists>gT gT2. groupBackupsByTimestamp bs = [gT, gT2]
              \<and> BackupGroup.timestamp gT = T \<and> BackupGroup.timestamp gT2 = T2
              \<and> set (backups gT) = {aT, bT} \<and> set (backups gT2) = {aT2}))"
  using groups_keys [of bs] groups_of [of _ bs] groups_sorted [of bs]
    two_groups [of T T2 aT bT aT2 bs]
  by blast

text \<open>
  The three example backups, listed oldest first: the two groups, the newer one first.
\<close>

theorem groupBackupsByTimestamp_groups_witness:
  "validTime 1734273022000 \<and> validTime 1734186622000
   \<and> BackupInfo.timestamp analyticsLate = 1734273022000
   \<and> BackupInfo.timestamp warehouseLate = 1734273022000
   \<and> BackupInfo.timestamp analyticsEarly = 1734186622000
   \<and> (\<exists>gT gT2. groupBackupsByTimestamp [analyticsEarly, analyticsLate, warehouseLate] = [gT, gT2]
         \<and> BackupGroup.timestamp gT = 1734273022000 \<and> BackupGroup.timestamp gT2 = 1734186622000
         \<and> set (backups gT) = {analyticsLate, warehouseLate}
         \<and> set (backups gT2) = {analyticsEarly})
   \<and> groupBackupsByTimestamp [analyticsEarly, analyticsLate, warehouseLate]
       = [\<lparr>BackupGroup.timestamp = 1734273022000, timestampStr = ''2024-12-15T14:30:22.000Z'',
           backups = [analyticsLate, warehouseLate]\<rparr>,
          \<lparr>BackupGroup.timestamp = 1734186622000, timestampStr = ''2024-12-14T14:30:22.000Z'',
           backups = [analyticsEarly]\<rparr>]"
proof -
  have t: "BackupInfo.timestamp analyticsLate = 1734273022000"
    "BackupInfo.timestamp warehouseLate = 1734273022000"
    "BackupInfo.timestamp analyticsEarly = 1734186622000"
    by (simp_all add: analyticsLate_def warehouseLate_def analyticsEarly_def)
  have v: "validTime 1734273022000" "validTime 1734186622000"
    by (simp_all add: validTime_def)
  have s: "set [analyticsEarly, analyticsLate, warehouseLate]
      = {analyticsLate, warehouseLate, analyticsEarly}"
    by (simp add: insert_commute)
  have h: "validTime 1734273022000 \<and> validTime 1734186622000
      \<and> (1734186622000 :: int) < 1734273022000
      \<and> BackupInfo.timestamp analyticsLate = 1734273022000
      \<and> BackupInfo.timestamp warehouseLate = 1734273022000
      \<and> BackupInfo.timestamp analyticsEarly = 1734186622000
      \<and> set [analyticsEarly, analyticsLate, warehouseLate]
          = {analyticsLate, warehouseLate, analyticsEarly}"
    using t v s by simp
  have g: "\<exists>gT gT2. groupBackupsByTimestamp [analyticsEarly, analyticsLate, warehouseLate] = [gT, gT2]
      \<and> BackupGroup.timestamp gT = 1734273022000 \<and> BackupGroup.timestamp gT2 = 1734186622000
      \<and> set (backups gT) = {analyticsLate, warehouseLate}
      \<and> set (backups gT2) = {analyticsEarly}"
    by (rule groupBackupsByTimestamp_groups
        [of "[analyticsEarly, analyticsLate, warehouseLate]" 1734273022000 1734186622000
          analyticsLate warehouseLate analyticsEarly,
          THEN conjunct2, THEN conjunct2, THEN conjunct2, THEN conjunct2, THEN mp, OF h])
  have e: "groupBackupsByTimestamp [analyticsEarly, analyticsLate, warehouseLate]
       = [\<lparr>BackupGroup.timestamp = 1734273022000, timestampStr = ''2024-12-15T14:30:22.000Z'',
           backups = [analyticsLate, warehouseLate]\<rparr>,
          \<lparr>BackupGroup.timestamp = 1734186622000, timestampStr = ''2024-12-14T14:30:22.000Z'',
           backups = [analyticsEarly]\<rparr>]"
    by code_simp
  from t v g e show ?thesis by (intro conjI)
qed

end
